theory Spec2Isabelle
  imports Main
begin

text \<open>
  A model of the command-line agent and a development of its properties. The first part
  follows the program: the string and path functions of the host it relies on, a file
  system, the file tools, the search tool with its glob filter and tree walk, the
  dispatcher and the loop of the conversation controller, and the two handlers of the
  earlier agent. The second part fixes the vocabulary of the properties and proves them.
\<close>

section \<open>Strings of the host language\<close>

text \<open>
  A string of the program is a sequence of code units. The model keeps the code units
  0..255 (the Latin-1 range) and writes them as \<^typ>\<open>char\<close>, so a program string is a
  \<^typ>\<open>string\<close>. The library functions the tools call on strings (\<open>indexOf\<close>,
  \<open>split\<close>, \<open>replace\<close>, \<open>trim\<close>, \<open>join\<close>) follow the ECMAScript definitions.
\<close>

fun starts_with :: "string \<Rightarrow> string \<Rightarrow> bool" where
  "starts_with s [] = True"
| "starts_with [] (p # ps) = False"
| "starts_with (c # cs) (p # ps) = (c = p \<and> starts_with cs ps)"

text \<open>\<open>s.indexOf(pat)\<close>: the least position where \<open>pat\<close> starts, \<open>None\<close> for -1.\<close>

fun indexOf :: "string \<Rightarrow> string \<Rightarrow> nat option" where
  "indexOf [] pat = (if pat = [] then Some 0 else None)"
| "indexOf (c # cs) pat =
     (if starts_with (c # cs) pat then Some 0 else map_option Suc (indexOf cs pat))"

text \<open>
  \<open>s.split(sep)\<close> with a string separator: an empty separator yields the code units one
  by one; otherwise the pieces between the successive matches, each search starting right
  after the previous match.
\<close>

function js_split :: "string \<Rightarrow> string \<Rightarrow> string list" where
  "js_split s sep =
     (if sep = [] then map (\<lambda>c. [c]) s
      else case indexOf s sep of
             None \<Rightarrow> [s]
           | Some i \<Rightarrow> take i s # js_split (drop (i + length sep) s) sep)"
  by pat_completeness auto
termination
proof (relation "measure (\<lambda>(s, sep). length s)")
  show "wf (measure (\<lambda>(s, sep). length s))" by simp
next
  fix s sep :: string and i :: nat
  assume "sep \<noteq> []" and "indexOf s sep = Some i"
  then have "s \<noteq> []" by (cases s) auto
  with \<open>sep \<noteq> []\<close> show "((drop (i + length sep) s, sep), (s, sep)) \<in> measure (\<lambda>(s, sep). length s)"
    by (cases sep) auto
qed

declare js_split.simps [simp del]

text \<open>
  The replacement text of \<open>s.replace(pat, repl)\<close> for a string pattern
  (\<open>GetSubstitution\<close> with no captures): \<open>$$\<close> stands for a dollar sign, \<open>$&\<close> for the
  matched text, \<open>$`\<close> for the text before the match and \<open>$'\<close> for the text after it;
  every other character, a lone dollar sign included, stands for itself.
\<close>

fun getSubstitution :: "string \<Rightarrow> string \<Rightarrow> string \<Rightarrow> string \<Rightarrow> string" where
  "getSubstitution matched pre post [] = []"
| "getSubstitution matched pre post [c] = [c]"
| "getSubstitution matched pre post (c # d # r) =
     (if c = CHR ''$'' \<and> d = CHR ''$'' then CHR ''$'' # getSubstitution matched pre post r
      else if c = CHR ''$'' \<and> d = CHR ''&'' then matched @ getSubstitution matched pre post r
      else if c = CHR ''$'' \<and> d = CHR 0x60 then pre @ getSubstitution matched pre post r
      else if c = CHR ''$'' \<and> d = CHR 0x27 then post @ getSubstitution matched pre post r
      else c # getSubstitution matched pre post (d # r))"

text \<open>\<open>s.replace(pat, repl)\<close> with a string pattern: only the first match is replaced.\<close>

definition js_replace :: "string \<Rightarrow> string \<Rightarrow> string \<Rightarrow> string" where
  "js_replace s pat repl =
     (case indexOf s pat of
        None \<Rightarrow> s
      | Some i \<Rightarrow>
          take i s @ getSubstitution pat (take i s) (drop (i + length pat) s) repl
            @ drop (i + length pat) s)"

text \<open>\<open>xs.join(sep)\<close>.\<close>

fun js_join :: "string \<Rightarrow> string list \<Rightarrow> string" where
  "js_join sep [] = []"
| "js_join sep [x] = x"
| "js_join sep (x # y # ys) = x @ sep @ js_join sep (y # ys)"

text \<open>
  White space and line terminators among the code units 0..255: tab, line feed, vertical
  tab, form feed, carriage return, space and no-break space. \<open>s.trim()\<close> removes them
  from both ends.
\<close>

definition is_white_space :: "char \<Rightarrow> bool" where
  "is_white_space c \<longleftrightarrow>
     c = CHR 0x09 \<or> c = CHR 0x0A \<or> c = CHR 0x0B \<or> c = CHR 0x0C \<or> c = CHR 0x0D
     \<or> c = CHR 0x20 \<or> c = CHR 0xA0"

definition js_trim :: "string \<Rightarrow> string" where
  "js_trim s = rev (dropWhile is_white_space (rev (dropWhile is_white_space s)))"

text \<open>The decimal rendering of a number inside a template literal.\<close>

definition digit_char :: "nat \<Rightarrow> char" where
  "digit_char d = char_of (48 + d)"

fun string_of_nat :: "nat \<Rightarrow> string" where
  "string_of_nat n =
     (if n < 10 then [digit_char n] else string_of_nat (n div 10) @ [digit_char (n mod 10)])"

declare string_of_nat.simps [simp del]

definition string_of_int :: "int \<Rightarrow> string" where
  "string_of_int i = (if i < 0 then CHR ''-'' # string_of_nat (nat (- i)) else string_of_nat (nat i))"

section \<open>The file system\<close>

text \<open>
  The tools reach the file system through the host's synchronous \<open>fs\<close> calls. The model
  is a tree: a regular file carries its read and write permission and its text, a
  directory its list permission and its entries in the order \<open>readdir\<close> reports them,
  and every other kind of entry (device, socket, pipe) is opaque. A file's
  text is its UTF-8 decoding, so the bytes on disk are the encoding of the text. The
  root of the tree is the working directory of the process, taken to be the root
  directory; a path string is split at \<open>/\<close> and resolved from the root, empty and
  \<open>.\<close> components dropped and \<open>..\<close> stepping back to the parent. Symbolic links are
  not modelled. A failing call raises an error that carries a code and a message.
\<close>

datatype errno = ENOENT | EACCES | EISDIR | ENOTDIR | ENOTEMPTY | EEXIST | EBUSY

datatype node =
    RegFile bool bool string
  | Directory bool "(string \<times> node) list"
  | Special

fun errno_code :: "errno \<Rightarrow> string" where
  "errno_code ENOENT = ''ENOENT''"
| "errno_code EACCES = ''EACCES''"
| "errno_code EISDIR = ''EISDIR''"
| "errno_code ENOTDIR = ''ENOTDIR''"
| "errno_code ENOTEMPTY = ''ENOTEMPTY''"
| "errno_code EEXIST = ''EEXIST''"
| "errno_code EBUSY = ''EBUSY''"

fun errno_text :: "errno \<Rightarrow> string" where
  "errno_text ENOENT = ''no such file or directory''"
| "errno_text EACCES = ''permission denied''"
| "errno_text EISDIR = ''illegal operation on a directory''"
| "errno_text ENOTDIR = ''not a directory''"
| "errno_text ENOTEMPTY = ''directory not empty''"
| "errno_text EEXIST = ''file already exists''"
| "errno_text EBUSY = ''resource busy or locked''"

text \<open>
  An error raised by a call: its code, the system call and the path it was given (a
  failing \<open>read\<close> names no path).
\<close>

record sys_error =
  err_code :: errno
  err_syscall :: string
  err_path :: "string option"

definition err_message :: "sys_error \<Rightarrow> string" where
  "err_message e =
     errno_code (err_code e) @ '': '' @ errno_text (err_code e) @ '', '' @ err_syscall e
       @ (case err_path e of None \<Rightarrow> [] | Some p \<Rightarrow> '' '' @ [CHR 0x27] @ p @ [CHR 0x27])"

definition throw :: "errno \<Rightarrow> string \<Rightarrow> string \<Rightarrow> sys_error + 'a" where
  "throw c sc p = Inl \<lparr>err_code = c, err_syscall = sc, err_path = Some p\<rparr>"

fun split_char :: "char \<Rightarrow> string \<Rightarrow> string list" where
  "split_char d [] = [[]]"
| "split_char d (c # cs) =
     (if c = d then [] # split_char d cs
      else case split_char d cs of
             [] \<Rightarrow> [[c]]
           | x # xs \<Rightarrow> (c # x) # xs)"

text \<open>
  The host's path normalisation works on the segments between slashes: empty and \<open>.\<close>
  segments are dropped; \<open>..\<close> removes the segment before it, and where there is none
  (or it is itself \<open>..\<close>) it is kept only when the path may climb above its start.
\<close>

fun normalizeString :: "bool \<Rightarrow> string list \<Rightarrow> string list \<Rightarrow> string list" where
  "normalizeString climb res [] = res"
| "normalizeString climb res (seg # segs) =
     (if seg = [] \<or> seg = ''.'' then normalizeString climb res segs
      else if seg = ''..'' then
        (if res \<noteq> [] \<and> last res \<noteq> ''..'' then normalizeString climb (butlast res) segs
         else if climb then normalizeString climb (res @ [''..'']) segs
         else normalizeString climb res segs)
      else normalizeString climb (res @ [seg]) segs)"

text \<open>The components a path names, from the root of the tree.\<close>

definition path_components :: "string \<Rightarrow> string list" where
  "path_components p = normalizeString False [] (split_char CHR ''/'' p)"

text \<open>The empty path names nothing.\<close>

definition resolve :: "string \<Rightarrow> errno + string list" where
  "resolve p = (if p = [] then Inl ENOENT else Inr (path_components p))"

fun lookup :: "node \<Rightarrow> string list \<Rightarrow> errno + node"
  and lookup_in :: "(string \<times> node) list \<Rightarrow> string \<Rightarrow> string list \<Rightarrow> errno + node" where
  "lookup n [] = Inr n"
| "lookup (Directory r es) (k # ks) = lookup_in es k ks"
| "lookup (RegFile r w t) (k # ks) = Inl ENOTDIR"
| "lookup Special (k # ks) = Inl ENOTDIR"
| "lookup_in [] k ks = Inl ENOENT"
| "lookup_in ((n, x) # es) k ks = (if n = k then lookup x ks else lookup_in es k ks)"

definition stat :: "node \<Rightarrow> string \<Rightarrow> errno + node" where
  "stat fs p = (case resolve p of Inl e \<Rightarrow> Inl e | Inr ks \<Rightarrow> lookup fs ks)"

text \<open>\<open>fs.readFileSync(p, "utf-8")\<close>.\<close>

definition readFileSync :: "node \<Rightarrow> string \<Rightarrow> sys_error + string" where
  "readFileSync fs p =
     (case stat fs p of
        Inl e \<Rightarrow> throw e ''open'' p
      | Inr (RegFile r w t) \<Rightarrow> if r then Inr t else throw EACCES ''open'' p
      | Inr (Directory r es) \<Rightarrow> Inl \<lparr>err_code = EISDIR, err_syscall = ''read'', err_path = None\<rparr>
      | Inr Special \<Rightarrow> throw EACCES ''open'' p)"

text \<open>\<open>fs.readdirSync(p)\<close>: the names of the entries.\<close>

definition readdirSync :: "node \<Rightarrow> string \<Rightarrow> sys_error + string list" where
  "readdirSync fs p =
     (case stat fs p of
        Inl e \<Rightarrow> throw e ''scandir'' p
      | Inr (Directory r es) \<Rightarrow> if r then Inr (map fst es) else throw EACCES ''scandir'' p
      | Inr (RegFile r w t) \<Rightarrow> throw ENOTDIR ''scandir'' p
      | Inr Special \<Rightarrow> throw ENOTDIR ''scandir'' p)"

text \<open>
  Writing opens the file for writing, creating it in an existing directory when it is
  missing, and replaces its text.
\<close>

fun write_at :: "node \<Rightarrow> string list \<Rightarrow> string \<Rightarrow> errno + node"
  and write_in :: "(string \<times> node) list \<Rightarrow> string \<Rightarrow> string list \<Rightarrow> string
                     \<Rightarrow> errno + (string \<times> node) list" where
  "write_at (RegFile r w old) [] t = (if w then Inr (RegFile r w t) else Inl EACCES)"
| "write_at (Directory r es) [] t = Inl EISDIR"
| "write_at Special [] t = Inl EACCES"
| "write_at (Directory r es) (k # ks) t =
     (case write_in es k ks t of Inl e \<Rightarrow> Inl e | Inr es' \<Rightarrow> Inr (Directory r es'))"
| "write_at (RegFile r w old) (k # ks) t = Inl ENOTDIR"
| "write_at Special (k # ks) t = Inl ENOTDIR"
| "write_in [] k ks t = (if ks = [] then Inr [(k, RegFile True True t)] else Inl ENOENT)"
| "write_in ((n, x) # es) k ks t =
     (if n = k then (case write_at x ks t of Inl e \<Rightarrow> Inl e | Inr x' \<Rightarrow> Inr ((n, x') # es))
      else (case write_in es k ks t of Inl e \<Rightarrow> Inl e | Inr es' \<Rightarrow> Inr ((n, x) # es')))"

text \<open>\<open>fs.writeFileSync(p, text, "utf-8")\<close>.\<close>

definition writeFileSync :: "node \<Rightarrow> string \<Rightarrow> string \<Rightarrow> sys_error + node" where
  "writeFileSync fs p t =
     (case resolve p of
        Inl e \<Rightarrow> throw e ''open'' p
      | Inr ks \<Rightarrow> (case write_at fs ks t of Inl e \<Rightarrow> throw e ''open'' p | Inr fs' \<Rightarrow> Inr fs'))"

text \<open>
  \<open>fs.mkdirSync(p, {recursive: true})\<close>: every directory on the way that is missing is
  created; a directory that exists is left as it is; anything else in the way fails.
\<close>

fun new_dirs :: "string list \<Rightarrow> node" where
  "new_dirs [] = Directory True []"
| "new_dirs (k # ks) = Directory True [(k, new_dirs ks)]"

fun mkdir_at :: "node \<Rightarrow> string list \<Rightarrow> errno + node"
  and mkdir_in :: "(string \<times> node) list \<Rightarrow> string \<Rightarrow> string list \<Rightarrow> errno + (string \<times> node) list" where
  "mkdir_at (Directory r es) [] = Inr (Directory r es)"
| "mkdir_at (RegFile r w t) [] = Inl EEXIST"
| "mkdir_at Special [] = Inl EEXIST"
| "mkdir_at (Directory r es) (k # ks) =
     (case mkdir_in es k ks of Inl e \<Rightarrow> Inl e | Inr es' \<Rightarrow> Inr (Directory r es'))"
| "mkdir_at (RegFile r w t) (k # ks) = Inl ENOTDIR"
| "mkdir_at Special (k # ks) = Inl ENOTDIR"
| "mkdir_in [] k ks = Inr [(k, new_dirs ks)]"
| "mkdir_in ((n, x) # es) k ks =
     (if n = k then (case mkdir_at x ks of Inl e \<Rightarrow> Inl e | Inr x' \<Rightarrow> Inr ((n, x') # es))
      else (case mkdir_in es k ks of Inl e \<Rightarrow> Inl e | Inr es' \<Rightarrow> Inr ((n, x) # es')))"

definition mkdirSync_recursive :: "node \<Rightarrow> string \<Rightarrow> sys_error + node" where
  "mkdirSync_recursive fs p =
     (case resolve p of
        Inl e \<Rightarrow> throw e ''mkdir'' p
      | Inr ks \<Rightarrow> (case mkdir_at fs ks of Inl e \<Rightarrow> throw e ''mkdir'' p | Inr fs' \<Rightarrow> Inr fs'))"

text \<open>
  Removing an entry. \<open>unlink\<close> removes what is not a directory, \<open>rmdir\<close> a directory
  without entries; the root itself cannot be removed.
\<close>

fun remove_at :: "node \<Rightarrow> string list \<Rightarrow> errno + node"
  and remove_in :: "(string \<times> node) list \<Rightarrow> string \<Rightarrow> string list \<Rightarrow> errno + (string \<times> node) list" where
  "remove_at n [] = Inl EBUSY"
| "remove_at (Directory r es) (k # ks) =
     (case remove_in es k ks of Inl e \<Rightarrow> Inl e | Inr es' \<Rightarrow> Inr (Directory r es'))"
| "remove_at (RegFile r w t) (k # ks) = Inl ENOTDIR"
| "remove_at Special (k # ks) = Inl ENOTDIR"
| "remove_in [] k ks = Inl ENOENT"
| "remove_in ((n, x) # es) k ks =
     (if n = k then
        (if ks = [] then Inr es
         else (case remove_at x ks of Inl e \<Rightarrow> Inl e | Inr x' \<Rightarrow> Inr ((n, x') # es)))
      else (case remove_in es k ks of Inl e \<Rightarrow> Inl e | Inr es' \<Rightarrow> Inr ((n, x) # es')))"

definition unlinkSync :: "node \<Rightarrow> string \<Rightarrow> sys_error + node" where
  "unlinkSync fs p =
     (case resolve p of
        Inl e \<Rightarrow> throw e ''unlink'' p
      | Inr ks \<Rightarrow>
          (case lookup fs ks of
             Inl e \<Rightarrow> throw e ''unlink'' p
           | Inr (Directory r es) \<Rightarrow> throw EISDIR ''unlink'' p
           | Inr (RegFile r w t) \<Rightarrow>
               (case remove_at fs ks of Inl e \<Rightarrow> throw e ''unlink'' p | Inr fs' \<Rightarrow> Inr fs')
           | Inr Special \<Rightarrow>
               (case remove_at fs ks of Inl e \<Rightarrow> throw e ''unlink'' p | Inr fs' \<Rightarrow> Inr fs')))"

definition rmdirSync :: "node \<Rightarrow> string \<Rightarrow> sys_error + node" where
  "rmdirSync fs p =
     (case resolve p of
        Inl e \<Rightarrow> throw e ''rmdir'' p
      | Inr ks \<Rightarrow>
          (case lookup fs ks of
             Inl e \<Rightarrow> throw e ''rmdir'' p
           | Inr (Directory r es) \<Rightarrow>
               if es = [] then
                 (case remove_at fs ks of Inl e \<Rightarrow> throw e ''rmdir'' p | Inr fs' \<Rightarrow> Inr fs')
               else throw ENOTEMPTY ''rmdir'' p
           | Inr (RegFile r w t) \<Rightarrow> throw ENOTDIR ''rmdir'' p
           | Inr Special \<Rightarrow> throw ENOTDIR ''rmdir'' p))"

text \<open>
  The bytes of a text on disk (UTF-8: one byte below 128, two bytes for the other code
  units up to 255), and \<open>Buffer.byteLength(s, "utf-8")\<close>, which counts them without
  encoding.
\<close>

definition utf8_encode :: "string \<Rightarrow> char list" where
  "utf8_encode s =
     concat (map (\<lambda>c. let n = (of_char c :: nat)
                       in if n < 128 then [c] else [char_of (192 + n div 64), char_of (128 + n mod 64)]) s)"

definition byteLength :: "string \<Rightarrow> nat" where
  "byteLength s = sum_list (map (\<lambda>c. if (of_char c :: nat) < 128 then 1 else 2) s)"

subsection \<open>Path strings\<close>

text \<open>\<open>path.normalize\<close>, \<open>path.join\<close> of two parts, \<open>path.basename\<close> and \<open>path.dirname\<close>.\<close>

definition path_normalize :: "string \<Rightarrow> string" where
  "path_normalize p =
     (if p = [] then ''.''
      else
        (let isAbsolute = (hd p = CHR ''/'');
             trailingSeparator = (last p = CHR ''/'');
             r = js_join ''/'' (normalizeString (\<not> isAbsolute) [] (split_char CHR ''/'' p))
         in if r = [] then (if isAbsolute then ''/'' else if trailingSeparator then ''./'' else ''.'')
            else (if isAbsolute then ''/'' else []) @ r @ (if trailingSeparator then ''/'' else [])))"

definition path_join :: "string \<Rightarrow> string \<Rightarrow> string" where
  "path_join a b =
     (let parts = filter (\<lambda>x. x \<noteq> []) [a, b]
      in if parts = [] then ''.'' else path_normalize (js_join ''/'' parts))"

definition path_basename :: "string \<Rightarrow> string" where
  "path_basename p =
     rev (takeWhile (\<lambda>c. c \<noteq> CHR ''/'') (dropWhile (\<lambda>c. c = CHR ''/'') (rev p)))"

text \<open>
  \<open>path.dirname\<close> scans from the end down to index 1: it passes the trailing slashes and
  the last segment, and cuts the path at the slash it meets next.
\<close>

definition path_dirname :: "string \<Rightarrow> string" where
  "path_dirname p =
     (if p = [] then ''.''
      else
        (let hasRoot = (hd p = CHR ''/'');
             r = dropWhile (\<lambda>c. c \<noteq> CHR ''/'') (dropWhile (\<lambda>c. c = CHR ''/'') (rev (tl p)))
         in if r = [] then (if hasRoot then ''/'' else ''.'')
            else if hasRoot \<and> length r = 1 then ''//''
            else take (length r) p))"

section \<open>The file tools\<close>

text \<open>
  Each tool takes the file system and returns its text result with the file system it
  leaves behind. A \<open>try\<close> block becomes a case distinction on the outcome of each call
  inside it, and its \<open>catch\<close> clause a function of the error caught.
\<close>

definition readFileTool :: "string \<Rightarrow> node \<Rightarrow> string \<times> node" where
  "readFileTool p fs =
     (case readFileSync fs p of
        Inr t \<Rightarrow> (t, fs)
      | Inl e \<Rightarrow>
          if err_code e = ENOENT then (''Error: File not found: '' @ p, fs)
          else (''Error reading file: '' @ err_message e, fs))"

definition edit_catch :: "string \<Rightarrow> sys_error \<Rightarrow> string" where
  "edit_catch p e =
     (if err_code e = ENOENT then ''Error: File not found: '' @ p
      else ''Error editing file: '' @ err_message e)"

definition editFileTool :: "string \<Rightarrow> string \<Rightarrow> string \<Rightarrow> node \<Rightarrow> string \<times> node" where
  "editFileTool p oldString newString fs =
     (case readFileSync fs p of
        Inl e \<Rightarrow> (edit_catch p e, fs)
      | Inr content \<Rightarrow>
          (case indexOf content oldString of
             None \<Rightarrow> (''Error: old_string not found in '' @ p, fs)
           | Some idx \<Rightarrow>
               (let count = int (length (js_split content oldString)) - 1 in
                if count > 1 then
                  (''Error: old_string appears '' @ string_of_int count @ '' times in '' @ p
                     @ ''. Must be unique.'', fs)
                else
                  (let newContent = js_replace content oldString newString in
                   case writeFileSync fs p newContent of
                     Inl e \<Rightarrow> (edit_catch p e, fs)
                   | Inr fs' \<Rightarrow> (''Successfully edited '' @ p, fs')))))"

definition writeFileTool :: "string \<Rightarrow> string \<Rightarrow> node \<Rightarrow> string \<times> node" where
  "writeFileTool p content fs =
     (case mkdirSync_recursive fs (path_dirname p) of
        Inl e \<Rightarrow> (''Error writing file: '' @ err_message e, fs)
      | Inr fs1 \<Rightarrow>
          (case writeFileSync fs1 p content of
             Inl e \<Rightarrow> (''Error writing file: '' @ err_message e, fs1)
           | Inr fs2 \<Rightarrow>
               (''Successfully wrote '' @ string_of_nat (byteLength content) @ '' bytes to '' @ p, fs2)))"

definition delete_catch :: "string \<Rightarrow> sys_error \<Rightarrow> string" where
  "delete_catch p e =
     (if err_code e = ENOENT then ''Error: Path not found: '' @ p
      else ''Error deleting: '' @ err_message e)"

definition deleteFileTool :: "string \<Rightarrow> node \<Rightarrow> string \<times> node" where
  "deleteFileTool p fs =
     (case stat fs p of
        Inl e \<Rightarrow> (delete_catch p \<lparr>err_code = e, err_syscall = ''stat'', err_path = Some p\<rparr>, fs)
      | Inr (RegFile r w t) \<Rightarrow>
          (case unlinkSync fs p of
             Inl e \<Rightarrow> (delete_catch p e, fs)
           | Inr fs' \<Rightarrow> (''Successfully deleted file: '' @ p, fs'))
      | Inr (Directory r es) \<Rightarrow>
          (case rmdirSync fs p of
             Inl e \<Rightarrow> (delete_catch p e, fs)
           | Inr fs' \<Rightarrow> (''Successfully deleted directory: '' @ p, fs'))
      | Inr Special \<Rightarrow> (''Error: Path not found: '' @ p, fs))"

definition listDirectoryTool :: "string \<Rightarrow> node \<Rightarrow> string \<times> node" where
  "listDirectoryTool p fs =
     (let dir = (if p \<noteq> [] \<and> js_trim p \<noteq> [] then p else ''.'')
      in case readdirSync fs dir of
           Inr names \<Rightarrow> (js_join [CHR 0x0A] names, fs)
         | Inl e \<Rightarrow>
             if err_code e = ENOENT then (''Error: Directory not found: '' @ dir, fs)
             else (''Error listing directory: '' @ err_message e, fs))"

section \<open>The search tool\<close>

subsection \<open>Glob patterns\<close>

text \<open>
  \<open>s.replace(/[...]/g, f)\<close> for a pattern that matches single characters: every
  character of the class is replaced, the others are kept.
\<close>

definition replace_each :: "(char \<Rightarrow> bool) \<Rightarrow> (char \<Rightarrow> string) \<Rightarrow> string \<Rightarrow> string" where
  "replace_each cls f s = concat (map (\<lambda>c. if cls c then f c else [c]) s)"

text \<open>The class \<open>[.+^${}()|[\]\\]\<close> of \<open>globToRegExp\<close>.\<close>

definition glob_escaped_class :: "char \<Rightarrow> bool" where
  "glob_escaped_class c \<longleftrightarrow>
     c = CHR ''.'' \<or> c = CHR ''+'' \<or> c = CHR ''^'' \<or> c = CHR ''$'' \<or> c = CHR ''{'' \<or> c = CHR ''}''
     \<or> c = CHR ''('' \<or> c = CHR '')'' \<or> c = CHR ''|'' \<or> c = CHR ''['' \<or> c = CHR '']''
     \<or> c = CHR 0x5C"

text \<open>The source text \<open>globToRegExp\<close> hands to the regular expression constructor.\<close>

definition glob_source :: "string \<Rightarrow> string" where
  "glob_source glob =
     (let escaped =
        replace_each (\<lambda>c. c = CHR ''?'') (\<lambda>c. ''.'')
          (replace_each (\<lambda>c. c = CHR ''*'') (\<lambda>c. ''.*'')
            (replace_each glob_escaped_class (\<lambda>c. [CHR 0x5C, c]) glob))
      in ''^'' @ escaped @ ''$'')"

text \<open>
  The regular expressions that \<open>globToRegExp\<close> builds lie in a small fragment of the
  host's pattern language: a start anchor, a body of literal characters, escaped syntax
  characters, \<open>.\<close> and \<open>.*\<close>, and an end anchor. The constructor, restricted to this
  fragment, yields the list of the body's atoms; \<open>None\<close> stands for a source outside
  the fragment.
\<close>

datatype atom = Lit char | AnyChar | AnyRun

definition syntax_char :: "char \<Rightarrow> bool" where
  "syntax_char c \<longleftrightarrow>
     c = CHR ''^'' \<or> c = CHR ''$'' \<or> c = CHR 0x5C \<or> c = CHR ''.'' \<or> c = CHR ''*'' \<or> c = CHR ''+''
     \<or> c = CHR ''?'' \<or> c = CHR ''('' \<or> c = CHR '')'' \<or> c = CHR ''['' \<or> c = CHR '']''
     \<or> c = CHR ''{'' \<or> c = CHR ''}'' \<or> c = CHR ''|''"

fun parse_body :: "string \<Rightarrow> atom list option" where
  "parse_body [] = None"
| "parse_body [c] = (if c = CHR ''$'' then Some [] else None)"
| "parse_body (c # d # r) =
     (if c = CHR 0x5C then
        (if syntax_char d then map_option (Cons (Lit d)) (parse_body r) else None)
      else if c = CHR ''.'' then
        (if d = CHR ''*'' then map_option (Cons AnyRun) (parse_body r)
         else map_option (Cons AnyChar) (parse_body (d # r)))
      else if syntax_char c then None
      else map_option (Cons (Lit c)) (parse_body (d # r)))"

definition regexp_fragment :: "string \<Rightarrow> atom list option" where
  "regexp_fragment src =
     (case src of [] \<Rightarrow> None | c # r \<Rightarrow> if c = CHR ''^'' then parse_body r else None)"

text \<open>
  Matching with the flag \<open>i\<close>: two characters are the same when their canonical forms
  are, the canonical form being the upper case of the letters a-z and of the Latin-1
  letters. The dot matches every character but a line terminator (line feed and
  carriage return among the code units 0..255).
\<close>

definition canonicalize :: "char \<Rightarrow> char" where
  "canonicalize c =
     (let n = (of_char c :: nat)
      in if (97 \<le> n \<and> n \<le> 122) \<or> (224 \<le> n \<and> n \<le> 254 \<and> n \<noteq> 247)
         then char_of (n - 32) else c)"

definition is_line_terminator :: "char \<Rightarrow> bool" where
  "is_line_terminator c \<longleftrightarrow> c = CHR 0x0A \<or> c = CHR 0x0D"

text \<open>\<open>re.test(s)\<close> for an anchored expression: the atoms must match the whole of \<open>s\<close>.\<close>

fun regexp_test :: "atom list \<Rightarrow> string \<Rightarrow> bool" where
  "regexp_test [] s = (s = [])"
| "regexp_test (Lit c # as) [] = False"
| "regexp_test (Lit c # as) (d # s) = (canonicalize c = canonicalize d \<and> regexp_test as s)"
| "regexp_test (AnyChar # as) [] = False"
| "regexp_test (AnyChar # as) (d # s) = (\<not> is_line_terminator d \<and> regexp_test as s)"
| "regexp_test (AnyRun # as) [] = regexp_test as []"
| "regexp_test (AnyRun # as) (d # s) =
     (regexp_test as (d # s) \<or> (\<not> is_line_terminator d \<and> regexp_test (AnyRun # as) s))"

definition globToRegExp :: "string \<Rightarrow> atom list" where
  "globToRegExp glob = (case regexp_fragment (glob_source glob) of Some re \<Rightarrow> re | None \<Rightarrow> [])"

subsection \<open>Walking the tree\<close>

text \<open>
  The calls made on the file system are recorded next to the result, so that a run can
  be asked which directories it listed and which files it read.
\<close>

datatype fs_call = ReaddirCall string | ReadFileCall string

text \<open>
  \<open>walk\<close> lists a directory and visits its entries in order: it descends into a
  directory, collects a regular file and passes over anything else; a directory it
  cannot list contributes nothing. The node given with a path is the one the path
  names.
\<close>

fun walk :: "string \<Rightarrow> node \<Rightarrow> string list \<times> fs_call list"
  and walk_entries :: "string \<Rightarrow> (string \<times> node) list \<Rightarrow> string list \<times> fs_call list" where
  "walk current (Directory r es) =
     (if r then (let (out, calls) = walk_entries current es in (out, ReaddirCall current # calls))
      else ([], [ReaddirCall current]))"
| "walk current (RegFile r w t) = ([], [ReaddirCall current])"
| "walk current Special = ([], [ReaddirCall current])"
| "walk_entries current [] = ([], [])"
| "walk_entries current ((name, Directory r es') # es) =
     (let (out1, calls1) = walk (path_join current name) (Directory r es');
          (out2, calls2) = walk_entries current es
      in (out1 @ out2, calls1 @ calls2))"
| "walk_entries current ((name, RegFile r w t) # es) =
     (let (out2, calls2) = walk_entries current es
      in (path_join current name # out2, calls2))"
| "walk_entries current ((name, Special) # es) = walk_entries current es"

definition walkFiles :: "node \<Rightarrow> string \<Rightarrow> string list \<times> fs_call list" where
  "walkFiles fs rootDir =
     (case stat fs rootDir of
        Inl e \<Rightarrow> ([], [ReaddirCall rootDir])
      | Inr n \<Rightarrow> walk rootDir n)"

subsection \<open>Searching\<close>

text \<open>\<open>content.split(/\r?\n/)\<close>: the pieces between line feeds, each without the carriage
  return that stood before its line feed.\<close>

definition strip_cr :: "string \<Rightarrow> string" where
  "strip_cr x = (if x \<noteq> [] \<and> last x = CHR 0x0D then butlast x else x)"

definition split_lines :: "string \<Rightarrow> string list" where
  "split_lines content =
     (let pieces = split_char CHR 0x0A content in map strip_cr (butlast pieces) @ [last pieces])"

definition truncation_marker :: string where
  "truncation_marker = ''... (truncated, more results available)''"

definition result_line :: "string \<Rightarrow> nat \<Rightarrow> string \<Rightarrow> string" where
  "result_line filePath i line = filePath @ '':'' @ string_of_nat (i + 1) @ '': '' @ line"

text \<open>
  The loop over the lines of one file, from index \<open>i\<close>. The flag says that the cap was
  reached and the search has returned.
\<close>

fun scan_lines :: "(string \<Rightarrow> bool) \<Rightarrow> string \<Rightarrow> nat \<Rightarrow> string list \<Rightarrow> string list
                     \<Rightarrow> string list \<times> bool" where
  "scan_lines regex filePath i [] results = (results, False)"
| "scan_lines regex filePath i (line # rest) results =
     (if regex line then
        (let results' = results @ [result_line filePath i line]
         in if length results' \<ge> 50 then (results' @ [truncation_marker], True)
            else scan_lines regex filePath (i + 1) rest results')
      else scan_lines regex filePath (i + 1) rest results)"

text \<open>The loop over the files.\<close>

fun scan_files :: "node \<Rightarrow> (string \<Rightarrow> bool) \<Rightarrow> atom list option \<Rightarrow> string list \<Rightarrow> string list
                     \<Rightarrow> (string list \<times> bool) \<times> fs_call list" where
  "scan_files fs regex fileFilter [] results = ((results, False), [])"
| "scan_files fs regex fileFilter (filePath # files) results =
     (if (case fileFilter of None \<Rightarrow> False
          | Some re \<Rightarrow> \<not> regexp_test re (path_basename filePath))
      then scan_files fs regex fileFilter files results
      else
        (case readFileSync fs filePath of
           Inl e \<Rightarrow>
             (let (out, calls) = scan_files fs regex fileFilter files results
              in (out, ReadFileCall filePath # calls))
         | Inr content \<Rightarrow>
             (case scan_lines regex filePath 0 (split_lines content) results of
                (results', True) \<Rightarrow> ((results', True), [ReadFileCall filePath])
              | (results', False) \<Rightarrow>
                  (let (out, calls) = scan_files fs regex fileFilter files results'
                   in (out, ReadFileCall filePath # calls)))))"

text \<open>
  The search tool. The constructor of the host's regular expressions for the flag \<open>i\<close>
  is a parameter: it answers a pattern with the message of its syntax error or with the
  test the compiled expression performs on a line.
\<close>

definition searchTool_calls ::
  "(string \<Rightarrow> string + (string \<Rightarrow> bool)) \<Rightarrow> string \<Rightarrow> string \<Rightarrow> string option \<Rightarrow> node
     \<Rightarrow> string \<times> fs_call list" where
  "searchTool_calls new_RegExp pattern p filePattern fs =
     (let root = (if p \<noteq> [] \<and> js_trim p \<noteq> [] then p else ''.'')
      in case new_RegExp pattern of
           Inl msg \<Rightarrow> (''Invalid regex pattern: '' @ msg, [])
         | Inr regex \<Rightarrow>
             (let fileFilter =
                    (case filePattern of
                       None \<Rightarrow> None
                     | Some fp \<Rightarrow>
                         if fp \<noteq> [] \<and> js_trim fp \<noteq> [] then Some (globToRegExp (js_trim fp))
                         else None);
                  (files, calls1) = walkFiles fs root;
                  ((results, returned), calls2) = scan_files fs regex fileFilter files []
              in (if returned then js_join [CHR 0x0A] results
                  else if results = [] then ''No matches found''
                  else js_join [CHR 0x0A] results,
                  calls1 @ calls2)))"

definition searchTool ::
  "(string \<Rightarrow> string + (string \<Rightarrow> bool)) \<Rightarrow> string \<Rightarrow> string \<Rightarrow> string option \<Rightarrow> node
     \<Rightarrow> string \<times> node" where
  "searchTool new_RegExp pattern p filePattern fs =
     (fst (searchTool_calls new_RegExp pattern p filePattern fs), fs)"

section \<open>The dispatcher\<close>

text \<open>
  A request is a registered tool with arguments that conform to its declared schema (an
  optional argument may be absent), or a name outside the catalog. \<open>executeTool\<close>
  routes it to its handler, an absent path standing for \<open>.\<close>, and answers an unknown
  name with text.
\<close>

datatype tool_request =
    ReadFile string
  | ListDirectory "string option"
  | Search string "string option" "string option"
  | WriteFile string string
  | EditFile string string string
  | DeleteFile string
  | UnknownTool string

fun executeTool :: "(string \<Rightarrow> string + (string \<Rightarrow> bool)) \<Rightarrow> tool_request \<Rightarrow> node \<Rightarrow> string \<times> node" where
  "executeTool new_RegExp (ReadFile p) fs = readFileTool p fs"
| "executeTool new_RegExp (ListDirectory po) fs =
     listDirectoryTool (case po of None \<Rightarrow> ''.'' | Some p \<Rightarrow> p) fs"
| "executeTool new_RegExp (Search pattern po fpo) fs =
     searchTool new_RegExp pattern (case po of None \<Rightarrow> ''.'' | Some p \<Rightarrow> p) fpo fs"
| "executeTool new_RegExp (WriteFile p c) fs = writeFileTool p c fs"
| "executeTool new_RegExp (EditFile p old new) fs = editFileTool p old new fs"
| "executeTool new_RegExp (DeleteFile p) fs = deleteFileTool p fs"
| "executeTool new_RegExp (UnknownTool name) fs = (''Unknown tool: '' @ name, fs)"

section \<open>The conversation controller\<close>

text \<open>
  A tool call carries its identifier, the tool's name and the serialized arguments. An
  assistant message carries its content, which may be null, and its tool calls, a field
  that may be absent.
\<close>

record tool_call =
  tc_id :: string
  tc_name :: string
  tc_arguments :: string

record assistant_message =
  msg_content :: "string option"
  msg_tool_calls :: "tool_call list option"

datatype message =
    UserMessage string
  | AssistantMessage assistant_message
  | ToolMessage string string

datatype outcome = Done "string option" | Faulted | Pending

record run_result =
  run_outcome :: outcome
  run_requests :: "message list list"
  run_messages :: "message list"
  run_fs :: node

text \<open>
  The loop over the tool calls of one response. The decoder stands for \<open>JSON.parse\<close>
  followed by the reading of the arguments: \<open>None\<close> is its fault on a malformed payload,
  which ends the run. The flag says that every call was executed.
\<close>

fun execute_calls ::
  "(string \<Rightarrow> string \<Rightarrow> tool_request option) \<Rightarrow> (string \<Rightarrow> string + (string \<Rightarrow> bool))
     \<Rightarrow> tool_call list \<Rightarrow> message list \<Rightarrow> node \<Rightarrow> bool \<times> message list \<times> node" where
  "execute_calls decode new_RegExp [] messages fs = (True, messages, fs)"
| "execute_calls decode new_RegExp (tc # tcs) messages fs =
     (case decode (tc_name tc) (tc_arguments tc) of
        None \<Rightarrow> (False, messages, fs)
      | Some request \<Rightarrow>
          (let (result, fs') = executeTool new_RegExp request fs
           in execute_calls decode new_RegExp tcs (messages @ [ToolMessage (tc_id tc) result]) fs'))"

text \<open>
  The loop of \<open>run\<close>. The model client answers the conversation with an assistant
  message, or raises (\<open>None\<close>). Nothing bounds the number of turns, so the model of the
  loop counts them down from \<open>n\<close> and is \<open>Pending\<close> when they are used up. The result
  holds the outcome (the content printed at the end of the run), the conversations the
  client was invoked with, in order, the conversation at the end and the file system.
\<close>

fun run_loop ::
  "(message list \<Rightarrow> assistant_message option) \<Rightarrow> (string \<Rightarrow> string \<Rightarrow> tool_request option)
     \<Rightarrow> (string \<Rightarrow> string + (string \<Rightarrow> bool)) \<Rightarrow> nat \<Rightarrow> message list \<Rightarrow> node \<Rightarrow> run_result" where
  "run_loop client decode new_RegExp 0 messages fs =
     \<lparr>run_outcome = Pending, run_requests = [], run_messages = messages, run_fs = fs\<rparr>"
| "run_loop client decode new_RegExp (Suc n) messages fs =
     (case client messages of
        None \<Rightarrow>
          \<lparr>run_outcome = Faulted, run_requests = [messages], run_messages = messages, run_fs = fs\<rparr>
      | Some msg \<Rightarrow>
          (case msg_tool_calls msg of
             None \<Rightarrow>
               \<lparr>run_outcome = Done (msg_content msg), run_requests = [messages],
                 run_messages = messages, run_fs = fs\<rparr>
           | Some tcs \<Rightarrow>
               (case execute_calls decode new_RegExp tcs (messages @ [AssistantMessage msg]) fs of
                  (True, messages', fs') \<Rightarrow>
                    (let r = run_loop client decode new_RegExp n messages' fs'
                     in r\<lparr>run_requests := messages # run_requests r\<rparr>)
                | (False, messages', fs') \<Rightarrow>
                    \<lparr>run_outcome = Faulted, run_requests = [messages],
                      run_messages = messages', run_fs = fs'\<rparr>)))"

definition run ::
  "(message list \<Rightarrow> assistant_message option) \<Rightarrow> (string \<Rightarrow> string \<Rightarrow> tool_request option)
     \<Rightarrow> (string \<Rightarrow> string + (string \<Rightarrow> bool)) \<Rightarrow> nat \<Rightarrow> string \<Rightarrow> node \<Rightarrow> run_result" where
  "run client decode new_RegExp n promptText fs =
     run_loop client decode new_RegExp n [UserMessage promptText] fs"

section \<open>The first agent\<close>

text \<open>
  The handlers of \<open>agent.ts\<close> call the file system with no \<open>try\<close> around the call: an
  error raised by the call leaves the handler.
\<close>

definition readFile :: "node \<Rightarrow> string \<Rightarrow> sys_error + string" where
  "readFile fs path = readFileSync fs path"

definition listDirectory :: "node \<Rightarrow> string \<Rightarrow> sys_error + string" where
  "listDirectory fs path =
     (case readdirSync fs path of Inl e \<Rightarrow> Inl e | Inr names \<Rightarrow> Inr (js_join [CHR 0x0A] names))"

section \<open>The vocabulary of the properties\<close>

text \<open>
  The definitions of this section are not taken from the program: they say what the
  properties below are about.
\<close>

text \<open>
  The occurrence count of the specification: the number of non-overlapping literal
  matches of the target in the text, found from left to right. The empty target matches
  at every position of the text, its end included.
\<close>

function occurrences :: "string \<Rightarrow> string \<Rightarrow> nat" where
  "occurrences s pat =
     (if pat = [] then length s + 1
      else if s = [] then 0
      else if starts_with s pat then 1 + occurrences (drop (length pat) s) pat
      else occurrences (tl s) pat)"
  by pat_completeness auto
termination
  by (relation "measure (\<lambda>(s, pat). length s)") auto

declare occurrences.simps [simp del]

text \<open>
  What a glob means, stated on the glob itself: \<open>*\<close> stands for a run of characters
  that \<open>wild\<close> admits, \<open>?\<close> for one such character, and any other character for itself,
  compared in canonical form; the whole name must be matched.
\<close>

fun glob_match :: "(char \<Rightarrow> bool) \<Rightarrow> string \<Rightarrow> string \<Rightarrow> bool" where
  "glob_match wild [] s = (s = [])"
| "glob_match wild (g # gs) [] = (g = CHR ''*'' \<and> glob_match wild gs [])"
| "glob_match wild (g # gs) (c # s) =
     (if g = CHR ''*'' then glob_match wild gs (c # s) \<or> (wild c \<and> glob_match wild (g # gs) s)
      else if g = CHR ''?'' then wild c \<and> glob_match wild gs s
      else canonicalize g = canonicalize c \<and> glob_match wild gs s)"

text \<open>The atom and the piece of source text that one character of a glob becomes.\<close>

definition glob_atom :: "char \<Rightarrow> atom" where
  "glob_atom c = (if c = CHR ''*'' then AnyRun else if c = CHR ''?'' then AnyChar else Lit c)"

definition glob_piece :: "char \<Rightarrow> string" where
  "glob_piece c =
     (if glob_escaped_class c then [CHR 0x5C, c]
      else if c = CHR ''*'' then ''.*''
      else if c = CHR ''?'' then ''.''
      else [c])"

text \<open>
  The matching lines of a search, stated on the tree: the result lines of a file are its
  matching lines in order, numbered from 1; a file the filter rejects or that cannot be
  read has none; the matches of the search are those of the files in the order of the
  walk.
\<close>

definition file_matches :: "(string \<Rightarrow> bool) \<Rightarrow> string \<Rightarrow> nat \<Rightarrow> string list \<Rightarrow> string list" where
  "file_matches regex filePath i lines =
     map (\<lambda>(j, line). result_line filePath j line)
       (filter (\<lambda>(j, line). regex line) (enumerate i lines))"

definition filtered_out :: "atom list option \<Rightarrow> string \<Rightarrow> bool" where
  "filtered_out fileFilter filePath =
     (case fileFilter of None \<Rightarrow> False | Some re \<Rightarrow> \<not> regexp_test re (path_basename filePath))"

definition all_matches :: "node \<Rightarrow> (string \<Rightarrow> bool) \<Rightarrow> atom list option \<Rightarrow> string list \<Rightarrow> string list" where
  "all_matches fs regex fileFilter files =
     concat (map (\<lambda>filePath.
        if filtered_out fileFilter filePath then []
        else case readFileSync fs filePath of
               Inl e \<Rightarrow> []
             | Inr content \<Rightarrow> file_matches regex filePath 0 (split_lines content)) files)"

text \<open>What the loops hold after collecting \<open>ms\<close>: all of it below the cap, else the first 50 and the marker.\<close>

definition capped :: "string list \<Rightarrow> string list \<times> bool" where
  "capped ms = (if length ms < 50 then (ms, False) else (take 50 ms @ [truncation_marker], True))"

text \<open>
  The name of a directory entry: not empty, without a slash, and neither \<open>.\<close> nor \<open>..\<close>.
\<close>

definition plain_name :: "string \<Rightarrow> bool" where
  "plain_name name \<longleftrightarrow> name \<noteq> [] \<and> CHR ''/'' \<notin> set name \<and> name \<noteq> ''.'' \<and> name \<noteq> ''..''"



text \<open>
  A conversation has complete turns when every assistant message with tool calls is
  followed at once by one tool result for each call, with the call's identifier and in
  the order of the calls, and a tool result stands nowhere else.
\<close>

fun pending_after :: "tool_call list \<Rightarrow> message list \<Rightarrow> tool_call list option" where
  "pending_after p [] = Some p"
| "pending_after [] (UserMessage u # ms) = pending_after [] ms"
| "pending_after [] (AssistantMessage m # ms) =
     pending_after (case msg_tool_calls m of None \<Rightarrow> [] | Some tcs \<Rightarrow> tcs) ms"
| "pending_after [] (ToolMessage i c # ms) = None"
| "pending_after (tc # tcs) (ToolMessage i c # ms) =
     (if i = tc_id tc then pending_after tcs ms else None)"
| "pending_after (tc # tcs) (UserMessage u # ms) = None"
| "pending_after (tc # tcs) (AssistantMessage m # ms) = None"

definition complete_turns :: "message list \<Rightarrow> bool" where
  "complete_turns ms \<longleftrightarrow> pending_after [] ms = Some []"

definition tool_results :: "tool_call list \<Rightarrow> string list \<Rightarrow> message list" where
  "tool_results tcs results = map (\<lambda>(tc, result). ToolMessage (tc_id tc) result) (zip tcs results)"

subsection \<open>Inputs for the examples\<close>

text \<open>
  For the examples, an engine for the patterns without syntax characters: such a pattern
  matches the lines that contain it, letters compared without regard to case, as it does
  for the host. It rejects every pattern with a syntax character; the host rejects some
  of them, the lone opening parenthesis among them.
\<close>

definition literal_test :: "string \<Rightarrow> string \<Rightarrow> bool" where
  "literal_test pat line \<longleftrightarrow> indexOf (map canonicalize line) (map canonicalize pat) \<noteq> None"

definition sample_RegExp :: "string \<Rightarrow> string + (string \<Rightarrow> bool)" where
  "sample_RegExp pat =
     (if list_ex syntax_char pat then Inl (''Invalid regular expression: /'' @ pat @ ''/i'')
      else Inr (literal_test pat))"

text \<open>A directory that holds the file \<open>notes.txt\<close> with the lines \<open>foo\<close>, \<open>bar\<close>, \<open>foo\<close>.\<close>

definition notes_dir :: node where
  "notes_dir = Directory True
     [(''notes.txt'', RegFile True True (''foo'' @ [CHR 0x0A] @ ''bar'' @ [CHR 0x0A] @ ''foo'' @ [CHR 0x0A]))]"

text \<open>A directory that holds the file \<open>f\<close> with fifty lines \<open>a\<close>.\<close>

definition fifty_lines :: node where
  "fifty_lines = Directory True
     [(''f'', RegFile True True (concat (replicate 49 (''a'' @ [CHR 0x0A])) @ ''a''))]"


text \<open>A directory that holds one file, whose name has a line feed in it, with the line \<open>foo\<close>.\<close>

definition line_feed_dir :: node where
  "line_feed_dir = Directory True [(''a'' @ [CHR 0x0A] @ ''b.txt'', RegFile True True ''foo'')]"

text \<open>Stand-ins for the examples: a decoder that knows one payload, and two model clients.\<close>

definition notes_arguments :: string where
  "notes_arguments = ''{'' @ [CHR 0x22] @ ''path'' @ [CHR 0x22] @ '': '' @ [CHR 0x22] @ ''notes.txt''
     @ [CHR 0x22] @ ''}''"

definition sample_decode :: "string \<Rightarrow> string \<Rightarrow> tool_request option" where
  "sample_decode name arguments =
     (if arguments = notes_arguments then
        (if name = ''read_file'' then Some (ReadFile ''notes.txt'')
         else if name = ''delete_file'' then Some (DeleteFile ''notes.txt'')
         else Some (UnknownTool name))
      else None)"

definition first_reply :: assistant_message where
  "first_reply = \<lparr>msg_content = None, msg_tool_calls = Some
     [\<lparr>tc_id = ''call_1'', tc_name = ''read_file'', tc_arguments = notes_arguments\<rparr>,
      \<lparr>tc_id = ''call_2'', tc_name = ''frobnicate'', tc_arguments = notes_arguments\<rparr>]\<rparr>"

definition sample_client :: "message list \<Rightarrow> assistant_message option" where
  "sample_client messages =
     (if length messages = 1 then Some first_reply
      else Some \<lparr>msg_content = Some ''done'', msg_tool_calls = None\<rparr>)"

definition empty_calls_client :: "message list \<Rightarrow> assistant_message option" where
  "empty_calls_client messages = Some \<lparr>msg_content = Some ''hello'', msg_tool_calls = Some []\<rparr>"

section \<open>Facts about the string functions\<close>

lemma starts_with_iff: "starts_with s p \<longleftrightarrow> (\<exists>r. s = p @ r)"
  by (induction s p rule: starts_with.induct) auto

lemma starts_with_drop: "starts_with s p \<Longrightarrow> s = p @ drop (length p) s"
  by (auto simp: starts_with_iff)

lemma indexOf_Some_decomp:
  "indexOf s pat = Some i \<Longrightarrow> s = take i s @ pat @ drop (i + length pat) s"
proof (induction s arbitrary: i)
  case Nil
  then show ?case by (simp split: if_splits)
next
  case (Cons c cs)
  show ?case
  proof (cases "starts_with (c # cs) pat")
    case True
    with Cons.prems have "i = 0" by simp
    with starts_with_drop[OF True] show ?thesis by simp
  next
    case False
    with Cons.prems obtain j where j: "indexOf cs pat = Some j" "i = Suc j" by auto
    from Cons.IH[OF j(1)] j(2) show ?thesis by simp
  qed
qed

lemma getSubstitution_plain:
  "CHR ''$'' \<notin> set repl \<Longrightarrow> getSubstitution m pre post repl = repl"
  by (induction m pre post repl rule: getSubstitution.induct) auto

lemma js_replace_plain:
  "indexOf s pat = Some i \<Longrightarrow> CHR ''$'' \<notin> set repl \<Longrightarrow>
   js_replace s pat repl = take i s @ repl @ drop (i + length pat) s"
  by (simp add: js_replace_def getSubstitution_plain)

text \<open>Splitting at a non-empty target yields one piece more than the target occurs.\<close>

lemma length_js_split:
  "pat \<noteq> [] \<Longrightarrow> length (js_split s pat) = occurrences s pat + 1"
proof (induction s pat rule: occurrences.induct)
  case (1 s pat)
  show ?case
  proof (cases s)
    case Nil
    with 1 show ?thesis by (simp add: js_split.simps occurrences.simps)
  next
    case (Cons c cs)
    show ?thesis
    proof (cases "starts_with s pat")
      case True
      with 1 Cons show ?thesis
        by (simp add: js_split.simps[of "c # cs"] occurrences.simps[of "c # cs"])
    next
      case False
      with 1 Cons have ih: "length (js_split cs pat) = occurrences cs pat + 1" by simp
      show ?thesis
      proof (cases "indexOf cs pat")
        case None
        with False Cons 1 ih show ?thesis
          by (simp add: js_split.simps[of "c # cs"] js_split.simps[of cs]
                occurrences.simps[of "c # cs"])
      next
        case (Some j)
        with False Cons 1 ih show ?thesis
          by (simp add: js_split.simps[of "c # cs"] js_split.simps[of cs]
                occurrences.simps[of "c # cs"])
      qed
    qed
  qed
qed

lemma indexOf_None_iff:
  "pat \<noteq> [] \<Longrightarrow> indexOf s pat = None \<longleftrightarrow> occurrences s pat = 0"
proof (induction s pat rule: occurrences.induct)
  case (1 s pat)
  show ?case
  proof (cases s)
    case Nil
    with 1 show ?thesis by (simp add: occurrences.simps)
  next
    case (Cons c cs)
    with 1 show ?thesis by (simp add: occurrences.simps[of "c # cs"])
  qed
qed

lemma string_of_int_nat: "string_of_int (int n) = string_of_nat n"
  by (simp add: string_of_int_def)

section \<open>Facts about the file system\<close>

lemma write_lookup:
  "write_at n ks t = Inr n' \<Longrightarrow> lookup n ks = Inr (RegFile r w c)
     \<Longrightarrow> lookup n' ks = Inr (RegFile r w t)"
  "write_in es k ks t = Inr es' \<Longrightarrow> lookup_in es k ks = Inr (RegFile r w c)
     \<Longrightarrow> lookup_in es' k ks = Inr (RegFile r w t)"
  by (induction n ks t and es k ks t arbitrary: n' and es' rule: write_at_write_in.induct)
     (auto split: if_splits sum.splits)

lemma write_read:
  "writeFileSync fs p t = Inr fs' \<Longrightarrow> readFileSync fs p = Inr c
     \<Longrightarrow> readFileSync fs' p = Inr t"
  by (auto simp: writeFileSync_def readFileSync_def stat_def throw_def write_lookup
        split: sum.splits node.splits if_splits)

section \<open>Facts about path strings\<close>

lemma split_char_nonempty: "split_char d s \<noteq> []"
  by (induction s) (auto split: list.splits)

lemma split_char_plain: "d \<notin> set s \<Longrightarrow> split_char d s = [s]"
  by (induction s) auto

lemma split_char_append:
  "split_char d (a @ d # b) = split_char d a @ split_char d b"
  by (induction a) (auto split: list.splits simp: split_char_nonempty)

lemma normalizeString_snoc:
  "seg \<noteq> [] \<Longrightarrow> seg \<noteq> ''.'' \<Longrightarrow> seg \<noteq> ''..'' \<Longrightarrow>
   normalizeString climb res (segs @ [seg]) = normalizeString climb res segs @ [seg]"
  by (induction segs arbitrary: res) auto

lemma js_join_snoc:
  "js_join sep (xs @ [x]) = (if xs = [] then x else js_join sep xs @ sep @ x)"
  by (induction sep xs rule: js_join.induct) auto

lemma last_not_member: "s \<noteq> [] \<Longrightarrow> c \<notin> set s \<Longrightarrow> last s \<noteq> c"
  by (metis last_in_set)

lemma hd_not_member: "s \<noteq> [] \<Longrightarrow> c \<notin> set s \<Longrightarrow> hd s \<noteq> c"
  by (metis list.set_sel(1))

lemma basename_suffix:
  assumes "name \<noteq> []" "CHR ''/'' \<notin> set name" "pre = [] \<or> last pre = CHR ''/''"
  shows "path_basename (pre @ name) = name"
proof -
  from assms(1,2) last_not_member[of name "CHR ''/''"] have h: "hd (rev name) \<noteq> CHR ''/''" "rev name \<noteq> []"
    by (auto simp: hd_rev)
  then have d: "dropWhile (\<lambda>c. c = CHR ''/'') (rev name @ rev pre) = rev name @ rev pre"
    by (cases "rev name") auto
  have t: "takeWhile (\<lambda>c. c \<noteq> CHR ''/'') (rev name @ rev pre) = rev name"
  proof (cases "pre = []")
    case True
    with assms(2) show ?thesis by (auto simp: takeWhile_eq_all_conv)
  next
    case False
    with assms(3) have "hd (rev pre) = CHR ''/''" "rev pre \<noteq> []" by (auto simp: hd_rev)
    then have e: "takeWhile (\<lambda>c. c \<noteq> CHR ''/'') (rev pre) = []" by (cases "rev pre") auto
    have "takeWhile (\<lambda>c. c \<noteq> CHR ''/'') (rev name @ rev pre)
            = rev name @ takeWhile (\<lambda>c. c \<noteq> CHR ''/'') (rev pre)"
      using assms(2) by (intro takeWhile_append2) auto
    with e show ?thesis by simp
  qed
  show ?thesis by (simp add: path_basename_def d t)
qed

lemma normalize_ends_with_name:
  assumes pn: "plain_name name"
  shows "\<exists>pre. path_normalize (a @ CHR ''/'' # name) = pre @ name \<and> (pre = [] \<or> last pre = CHR ''/'')"
proof -
  let ?p = "a @ CHR ''/'' # name"
  let ?abs = "hd ?p = CHR ''/''"
  from pn have n: "name \<noteq> []" "CHR ''/'' \<notin> set name" "name \<noteq> ''.''" "name \<noteq> ''..''"
    by (auto simp: plain_name_def)
  have sp: "split_char CHR ''/'' ?p = split_char CHR ''/'' a @ [name]"
    using n(2) by (simp add: split_char_append split_char_plain)
  let ?segs = "normalizeString (\<not> ?abs) [] (split_char CHR ''/'' a)"
  have ns: "normalizeString (\<not> ?abs) [] (split_char CHR ''/'' ?p) = ?segs @ [name]"
    unfolding sp using n by (simp add: normalizeString_snoc)
  have l: "last ?p \<noteq> CHR ''/''" using n last_not_member[of name "CHR ''/''"] by auto
  have jn: "js_join ''/'' (?segs @ [name]) = (if ?segs = [] then name else js_join ''/'' ?segs @ ''/'' @ name)"
    by (rule js_join_snoc)
  have ne: "js_join ''/'' (?segs @ [name]) \<noteq> []" using n(1) by (simp add: jn)
  have "path_normalize ?p = (if ?abs then ''/'' else []) @ js_join ''/'' (?segs @ [name])"
    using l ne unfolding path_normalize_def Let_def ns by simp
  also have "\<dots> = ((if ?abs then ''/'' else []) @ (if ?segs = [] then [] else js_join ''/'' ?segs @ ''/'')) @ name"
    by (simp add: jn)
  finally have "path_normalize ?p =
     ((if ?abs then ''/'' else []) @ (if ?segs = [] then [] else js_join ''/'' ?segs @ ''/'')) @ name" .
  moreover have "(if ?abs then ''/'' else []) @ (if ?segs = [] then [] else js_join ''/'' ?segs @ ''/'') = []
      \<or> last ((if ?abs then ''/'' else []) @ (if ?segs = [] then [] else js_join ''/'' ?segs @ ''/'')) = CHR ''/''"
    by simp
  ultimately show ?thesis by blast
qed

lemma normalize_plain_name:
  assumes pn: "plain_name name"
  shows "path_normalize name = name"
proof -
  from pn have n: "name \<noteq> []" "CHR ''/'' \<notin> set name" "name \<noteq> ''.''" "name \<noteq> ''..''"
    by (auto simp: plain_name_def)
  from n(1,2) have e: "hd name \<noteq> CHR ''/''" "last name \<noteq> CHR ''/''"
    by (auto dest: hd_not_member last_not_member)
  have sp: "split_char CHR ''/'' name = [name]" using n(2) by (rule split_char_plain)
  show ?thesis using n e unfolding path_normalize_def Let_def sp by simp
qed

text \<open>
  The path the walk builds for an entry has the entry's name as its base name, so the
  file filter of the search is applied to the name of the entry.
\<close>

lemma basename_join:
  assumes pn: "plain_name name"
  shows "path_basename (path_join current name) = name"
proof -
  from pn have n: "name \<noteq> []" "CHR ''/'' \<notin> set name" by (auto simp: plain_name_def)
  show ?thesis
  proof (cases "current = []")
    case True
    with n(1) have "path_join current name = name"
      by (simp add: path_join_def normalize_plain_name[OF pn])
    moreover have "path_basename ([] @ name) = name" by (rule basename_suffix[OF n]) simp
    ultimately show ?thesis by simp
  next
    case False
    with n(1) have "path_join current name = path_normalize (current @ CHR ''/'' # name)"
      by (simp add: path_join_def)
    moreover from normalize_ends_with_name[OF pn, of current] obtain pre where
      "path_normalize (current @ CHR ''/'' # name) = pre @ name" "pre = [] \<or> last pre = CHR ''/''"
      by blast
    ultimately show ?thesis using basename_suffix[OF n, of pre] by simp
  qed
qed

section \<open>Properties of the glob translation\<close>

lemma escaped_pieces:
  "replace_each (\<lambda>c. c = CHR ''?'') (\<lambda>c. ''.'')
          (replace_each (\<lambda>c. c = CHR ''*'') (\<lambda>c. ''.*'')
            (replace_each glob_escaped_class (\<lambda>c. [CHR 0x5C, c]) glob))
   = concat (map glob_piece glob)"
  by (induction glob) (auto simp: replace_each_def glob_piece_def glob_escaped_class_def)

lemma glob_source_pieces: "glob_source glob = CHR ''^'' # concat (map glob_piece glob) @ ''$''"
  by (simp add: glob_source_def escaped_pieces[unfolded replace_each_def] replace_each_def)

lemma pieces_tail:
  "\<exists>d r. concat (map glob_piece g) @ ''$'' = d # r \<and> d \<noteq> CHR ''*''"
  by (cases g) (auto simp: glob_piece_def)

lemma parse_body_pieces:
  "parse_body (concat (map glob_piece g) @ ''$'') = Some (map glob_atom g)"
proof (induction g)
  case Nil
  show ?case by simp
next
  case (Cons c g)
  obtain d r where t: "concat (map glob_piece g) @ ''$'' = d # r" "d \<noteq> CHR ''*''"
    using pieces_tail by blast
  have ih: "parse_body (d # r) = Some (map glob_atom g)" using Cons.IH t by simp
  consider (esc) "glob_escaped_class c" | (star) "c = CHR ''*''" | (qm) "c = CHR ''?''"
    | (lit) "\<not> glob_escaped_class c" "c \<noteq> CHR ''*''" "c \<noteq> CHR ''?''" by blast
  then show ?case
  proof cases
    case esc
    then have "syntax_char c" and a: "glob_atom c = Lit c" and p: "glob_piece c = [CHR 0x5C, c]"
      by (auto simp: glob_escaped_class_def syntax_char_def glob_atom_def glob_piece_def)
    with t ih show ?thesis by simp
  next
    case star
    then have a: "glob_atom c = AnyRun" and p: "glob_piece c = ''.*''"
      by (auto simp: glob_escaped_class_def glob_atom_def glob_piece_def)
    with t ih show ?thesis by simp
  next
    case qm
    then have a: "glob_atom c = AnyChar" and p: "glob_piece c = ''.''"
      by (auto simp: glob_escaped_class_def glob_atom_def glob_piece_def)
    with t ih show ?thesis by simp
  next
    case lit
    then have "\<not> syntax_char c" "c \<noteq> CHR 0x5C" "c \<noteq> CHR ''.''"
      and a: "glob_atom c = Lit c" and p: "glob_piece c = [c]"
      by (auto simp: glob_escaped_class_def syntax_char_def glob_atom_def glob_piece_def)
    with t ih show ?thesis by simp
  qed
qed

lemma globToRegExp_atoms: "globToRegExp glob = map glob_atom glob"
  by (simp add: globToRegExp_def regexp_fragment_def glob_source_pieces parse_body_pieces)

lemma regexp_test_glob:
  "regexp_test (map glob_atom g) s = glob_match (\<lambda>c. \<not> is_line_terminator c) g s"
  by (induction "(\<lambda>c. \<not> is_line_terminator c)" g s rule: glob_match.induct)
     (auto simp: glob_atom_def)

text \<open>A glob without wildcards matches the names that equal it up to the case of letters.\<close>

lemma glob_match_literal:
  "CHR ''*'' \<notin> set g \<Longrightarrow> CHR ''?'' \<notin> set g \<Longrightarrow>
   glob_match wild g s \<longleftrightarrow> map canonicalize g = map canonicalize s"
  by (induction wild g s rule: glob_match.induct) auto

text \<open>A star takes a run of admitted characters and leaves the rest to the remaining glob.\<close>

lemma glob_match_star:
  "glob_match wild (CHR ''*'' # gs) s \<longleftrightarrow>
     (\<exists>run rest. s = run @ rest \<and> list_all wild run \<and> glob_match wild gs rest)"
proof (induction s)
  case Nil
  then show ?case by simp
next
  case (Cons c s)
  show ?case (is "?l = ?r")
  proof
    assume ?l
    then consider "glob_match wild gs (c # s)" | "wild c" "glob_match wild (CHR ''*'' # gs) s" by auto
    then show ?r
    proof cases
      case 1
      then have "c # s = [] @ (c # s) \<and> list_all wild [] \<and> glob_match wild gs (c # s)" by simp
      then show ?thesis by blast
    next
      case 2
      with Cons.IH obtain run rest where "s = run @ rest" "list_all wild run" "glob_match wild gs rest" by blast
      with 2 have "c # s = (c # run) @ rest \<and> list_all wild (c # run) \<and> glob_match wild gs rest" by simp
      then show ?thesis by blast
    qed
  next
    assume ?r
    then obtain run rest where x: "c # s = run @ rest" "list_all wild run" "glob_match wild gs rest" by blast
    show ?l
    proof (cases run)
      case Nil
      with x have "rest = c # s" by simp
      with x(3) show ?thesis by simp
    next
      case (Cons a run')
      with x have "s = run' @ rest" "wild c" "list_all wild run'" by auto
      with x(3) Cons.IH have "glob_match wild (CHR ''*'' # gs) s" by blast
      with \<open>wild c\<close> show ?thesis by simp
    qed
  qed
qed

text \<open>
  What the translation does. The expression built from a glob matches a name exactly
  when the glob does, with \<open>*\<close> a run of characters other than line terminators and
  \<open>?\<close> one character other than a line terminator; every other character of the glob,
  the syntax characters of the pattern language included, stands for itself, letters
  compared without regard to case, and the whole name must be matched. So \<open>*.txt\<close>
  matches \<open>a.txt\<close> and not \<open>a.txt.bak\<close>, and \<open>a?c.txt\<close> matches \<open>abc.txt\<close> and not
  \<open>ac.txt\<close>.
\<close>

lemma glob_translation:
  "regexp_test (globToRegExp glob) name = glob_match (\<lambda>c. \<not> is_line_terminator c) glob name
   \<and> regexp_test (globToRegExp ''*.txt'') ''a.txt''
   \<and> \<not> regexp_test (globToRegExp ''*.txt'') ''a.txt.bak''
   \<and> regexp_test (globToRegExp ''a?c.txt'') ''abc.txt''
   \<and> \<not> regexp_test (globToRegExp ''a?c.txt'') ''ac.txt''"
proof -
  have "regexp_test (globToRegExp glob) name
          = glob_match (\<lambda>c. \<not> is_line_terminator c) glob name"
    by (simp add: globToRegExp_atoms regexp_test_glob)
  moreover have "regexp_test (globToRegExp ''*.txt'') ''a.txt''" by code_simp
  moreover have "\<not> regexp_test (globToRegExp ''*.txt'') ''a.txt.bak''" by code_simp
  moreover have "regexp_test (globToRegExp ''a?c.txt'') ''abc.txt''" by code_simp
  moreover have "\<not> regexp_test (globToRegExp ''a?c.txt'') ''ac.txt''" by code_simp
  ultimately show ?thesis by blast
qed

text \<open>
  The search applies the filter to the base name of each path, which for the paths of the
  walk is the name of the entry: the directories on the way play no part.
\<close>

lemma file_filter_base_name:
  "plain_name name \<Longrightarrow>
   filtered_out (Some (globToRegExp glob)) (path_join current name)
     \<longleftrightarrow> \<not> glob_match (\<lambda>c. \<not> is_line_terminator c) glob name"
  by (simp add: filtered_out_def basename_join globToRegExp_atoms regexp_test_glob)

lemma file_filter_directory_ignored:
  "\<not> filtered_out (Some (globToRegExp ''*.txt'')) (path_join ''sub.d'' ''a.txt'')
   \<and> filtered_out (Some (globToRegExp ''sub*'')) (path_join ''sub.d'' ''a.txt'')"
  by code_simp

section \<open>Properties of the search\<close>

lemma scan_lines_capped:
  "length results < 50 \<Longrightarrow>
   scan_lines regex filePath i lines results = capped (results @ file_matches regex filePath i lines)"
proof (induction lines arbitrary: i results)
  case Nil
  then show ?case by (simp add: capped_def file_matches_def)
next
  case (Cons line rest)
  show ?case
  proof (cases "regex line")
    case False
    with Cons show ?thesis by (simp add: file_matches_def)
  next
    case True
    show ?thesis
    proof (cases "length results + 1 \<ge> 50")
      case False
      with True Cons.prems Cons.IH[of "results @ [result_line filePath i line]" "Suc i"]
      show ?thesis by (simp add: file_matches_def)
    next
      case full: True
      with Cons.prems have l: "length results = 49" by simp
      with True show ?thesis by (simp add: file_matches_def capped_def)
    qed
  qed
qed

lemma capped_True_absorb:
  "capped ms = (r, True) \<Longrightarrow> capped (ms @ extra) = (r, True)"
  by (auto simp: capped_def split: if_splits)

lemma capped_False: "capped ms = (r, False) \<Longrightarrow> r = ms \<and> length ms < 50"
  by (auto simp: capped_def split: if_splits)

lemma scan_files_capped:
  "length results < 50 \<Longrightarrow>
   fst (scan_files fs regex fileFilter files results)
     = capped (results @ all_matches fs regex fileFilter files)"
proof (induction files arbitrary: results)
  case Nil
  then show ?case by (simp add: capped_def all_matches_def)
next
  case (Cons filePath files)
  have am: "all_matches fs regex fileFilter (filePath # files) =
      (if filtered_out fileFilter filePath then []
        else case readFileSync fs filePath of
               Inl e \<Rightarrow> []
             | Inr content \<Rightarrow> file_matches regex filePath 0 (split_lines content))
      @ all_matches fs regex fileFilter files"
    by (simp add: all_matches_def)
  show ?case
  proof (cases "filtered_out fileFilter filePath")
    case True
    with Cons show ?thesis by (simp add: am filtered_out_def)
  next
    case False
    then have nf: "\<not> (case fileFilter of None \<Rightarrow> False
          | Some re \<Rightarrow> \<not> regexp_test re (path_basename filePath))" by (simp add: filtered_out_def)
    show ?thesis
    proof (cases "readFileSync fs filePath")
      case (Inl e)
      with False nf Cons show ?thesis by (simp add: am case_prod_beta)
    next
      case (Inr content)
      let ?ms = "file_matches regex filePath 0 (split_lines content)"
      have sl: "scan_lines regex filePath 0 (split_lines content) results = capped (results @ ?ms)"
        using Cons.prems by (rule scan_lines_capped)
      obtain r b where c: "capped (results @ ?ms) = (r, b)" by (cases "capped (results @ ?ms)")
      show ?thesis
      proof (cases b)
        case True
        with c capped_True_absorb[of "results @ ?ms" r "all_matches fs regex fileFilter files"]
        have "capped (results @ ?ms @ all_matches fs regex fileFilter files) = (r, True)" by simp
        with True c sl Inr False nf show ?thesis by (simp add: am)
      next
        case b: False
        with c have "capped (results @ ?ms) = (r, False)" by simp
        from capped_False[OF this] have r: "r = results @ ?ms" "length (results @ ?ms) < 50" by simp_all
        from Cons.IH[OF r(2)] b c sl Inr False nf r(1) show ?thesis
          by (simp add: am case_prod_beta)
      qed
    qed
  qed
qed

text \<open>
  Claim C2, as the code has it. Let \<open>ms\<close> be the matching lines of the search, in the
  order of the walk and then of the lines, each rendered as path, 1-based line number
  and line text. With no match the search returns the sentinel; with fewer than 50 it
  returns exactly the lines of \<open>ms\<close>; with 50 or more it returns the first 50 and one
  truncation marker line.
\<close>

theorem search_result_lines:
  assumes re: "new_RegExp pattern = Inr regex"
    and root: "root = (if p \<noteq> [] \<and> js_trim p \<noteq> [] then p else ''.'')"
    and ff: "fileFilter =
               (case filePattern of
                  None \<Rightarrow> None
                | Some fp \<Rightarrow>
                    if fp \<noteq> [] \<and> js_trim fp \<noteq> [] then Some (globToRegExp (js_trim fp)) else None)"
    and ms: "ms = all_matches fs regex fileFilter (fst (walkFiles fs root))"
  shows "fst (searchTool new_RegExp pattern p filePattern fs) =
           (if length ms = 0 then ''No matches found''
            else if length ms < 50 then js_join [CHR 0x0A] ms
            else js_join [CHR 0x0A] (take 50 ms @ [truncation_marker]))"
proof -
  have sf: "fst (scan_files fs regex fileFilter (fst (walkFiles fs root)) []) = capped ms"
    using scan_files_capped[of "[]" fs regex fileFilter "fst (walkFiles fs root)"] ms by simp
  have "fst (searchTool new_RegExp pattern p filePattern fs) =
          (let (results, returned) = capped ms
           in if returned then js_join [CHR 0x0A] results
              else if results = [] then ''No matches found''
              else js_join [CHR 0x0A] results)"
    unfolding searchTool_def searchTool_calls_def Let_def
    using re root[symmetric] ff[symmetric] sf by (simp add: case_prod_beta)
  then show ?thesis by (auto simp: capped_def)
qed

theorem search_result_lines_witness:
  "sample_RegExp ''foo'' = Inr (literal_test ''foo'') \<and>
   fst (searchTool sample_RegExp ''foo'' ''.'' None notes_dir)
     = ''notes.txt:1: foo'' @ [CHR 0x0A] @ ''notes.txt:3: foo''"
proof -
  have re: "sample_RegExp ''foo'' = Inr (literal_test ''foo'')" by (simp add: sample_RegExp_def syntax_char_def)
  have ms: "all_matches notes_dir (literal_test ''foo'') None (fst (walkFiles notes_dir ''.''))
              = [''notes.txt:1: foo'', ''notes.txt:3: foo'']" by code_simp
  have r: "''.'' = (if ''.'' \<noteq> [] \<and> js_trim ''.'' \<noteq> [] then ''.'' else ''.'')" by simp
  from search_result_lines[where new_RegExp = sample_RegExp and pattern = "''foo''"
      and p = "''.''" and filePattern = None and fs = notes_dir, OF re r refl refl] ms re
  show ?thesis by simp
qed

text \<open>
  Claim C2, as stated, fails at exactly 50 matching lines: the search returns the 50
  result lines and the truncation marker after them.
\<close>

theorem search_fifty_matches_marker:
  "length (all_matches fifty_lines (literal_test ''a'') None (fst (walkFiles fifty_lines ''.''))) = 50 \<and>
   fst (searchTool sample_RegExp ''a'' ''.'' None fifty_lines)
     = js_join [CHR 0x0A]
         (all_matches fifty_lines (literal_test ''a'') None (fst (walkFiles fifty_lines ''.''))
            @ [truncation_marker])"
proof -
  let ?ms = "all_matches fifty_lines (literal_test ''a'') None (fst (walkFiles fifty_lines ''.''))"
  have re: "sample_RegExp ''a'' = Inr (literal_test ''a'')"
    by (simp add: sample_RegExp_def syntax_char_def)
  have n: "length ?ms = 50" by code_simp
  have "fst (scan_files fifty_lines (literal_test ''a'') None (fst (walkFiles fifty_lines ''.'')) [])
          = capped ?ms"
    using scan_files_capped[of "[]" fifty_lines "literal_test ''a''" None] by simp
  with n have "fst (scan_files fifty_lines (literal_test ''a'') None (fst (walkFiles fifty_lines ''.'')) [])
          = (?ms @ [truncation_marker], True)"
    by (simp add: capped_def)
  with re have "fst (searchTool sample_RegExp ''a'' ''.'' None fifty_lines)
          = js_join [CHR 0x0A] (?ms @ [truncation_marker])"
    by (simp add: searchTool_def searchTool_calls_def js_trim_def is_white_space_def case_prod_beta
          Let_def)
  with n show ?thesis by simp
qed

text \<open>
  Claim C6. The filter must let \<open>*\<close> stand for any run of characters and \<open>?\<close> for any one
  character of the base name. The expression is built without the flag that lets the dot
  match a line terminator, so a wildcard does not match a line feed: the file named
  \<open>a\<close>, line feed, \<open>b.txt\<close>, which holds the line \<open>foo\<close>, matches the glob \<open>*.txt\<close> read
  as the claim states it, and is found by the search without a filter, yet the search
  with the filter \<open>*.txt\<close> passes over it and reports no match.
\<close>

theorem search_filter_misses_line_feed_name:
  "glob_match (\<lambda>c. True) ''*.txt'' (''a'' @ [CHR 0x0A] @ ''b.txt'')
   \<and> fst (walkFiles line_feed_dir ''.'') = [''a'' @ [CHR 0x0A] @ ''b.txt'']
   \<and> path_basename (''a'' @ [CHR 0x0A] @ ''b.txt'') = ''a'' @ [CHR 0x0A] @ ''b.txt''
   \<and> \<not> regexp_test (globToRegExp ''*.txt'') (''a'' @ [CHR 0x0A] @ ''b.txt'')
   \<and> fst (searchTool sample_RegExp ''foo'' ''.'' None line_feed_dir)
       = ''a'' @ [CHR 0x0A] @ ''b.txt:1: foo''
   \<and> fst (searchTool sample_RegExp ''foo'' ''.'' (Some ''*.txt'') line_feed_dir) = ''No matches found''"
  by code_simp

text \<open>
  Claim C8. When the pattern does not compile, the search returns the error text with the
  constructor's message and has made no call on the file system: no directory was listed
  and no file was read.
\<close>

theorem search_invalid_pattern:
  "new_RegExp pattern = Inl msg \<Longrightarrow>
   searchTool_calls new_RegExp pattern p filePattern fs = (''Invalid regex pattern: '' @ msg, [])
   \<and> searchTool new_RegExp pattern p filePattern fs = (''Invalid regex pattern: '' @ msg, fs)"
  by (simp add: searchTool_def searchTool_calls_def)

theorem search_invalid_pattern_witness:
  "sample_RegExp ''('' = Inl ''Invalid regular expression: /(/i'' \<and>
   searchTool_calls sample_RegExp ''('' ''src'' (Some ''*.ts'') notes_dir
     = (''Invalid regex pattern: Invalid regular expression: /(/i'', [])
   \<and> searchTool sample_RegExp ''('' ''src'' (Some ''*.ts'') notes_dir
     = (''Invalid regex pattern: Invalid regular expression: /(/i'', notes_dir)"
proof -
  have re: "sample_RegExp ''('' = Inl ''Invalid regular expression: /(/i''" by (simp add: sample_RegExp_def syntax_char_def)
  from search_invalid_pattern[where new_RegExp = sample_RegExp and pattern = "''(''", OF re] re
  show ?thesis by simp
qed

section \<open>Blank paths\<close>

lemma js_trim_blank:
  assumes "list_all is_white_space p"
  shows "js_trim p = []"
proof -
  from assms have d: "dropWhile is_white_space p = []" by (induction p) auto
  show ?thesis unfolding js_trim_def d by simp
qed

lemma js_trim_dot: "js_trim ''.'' = ''.''"
  by (simp add: js_trim_def is_white_space_def)

text \<open>
  Claim C10. A path argument made of white space only, the empty string included, gives
  the same listing and the same search, with the same calls on the file system, as the
  path \<open>.\<close> does, and through the dispatcher the same as an absent path.
\<close>

theorem blank_path_is_current_directory:
  "list_all is_white_space p \<Longrightarrow>
   listDirectoryTool p fs = listDirectoryTool ''.'' fs \<and>
   searchTool_calls new_RegExp pattern p filePattern fs
     = searchTool_calls new_RegExp pattern ''.'' filePattern fs \<and>
   executeTool new_RegExp (ListDirectory (Some p)) fs = executeTool new_RegExp (ListDirectory None) fs \<and>
   executeTool new_RegExp (Search pattern (Some p) filePattern) fs
     = executeTool new_RegExp (Search pattern None filePattern) fs"
  by (simp add: listDirectoryTool_def searchTool_def searchTool_calls_def js_trim_blank js_trim_dot)

theorem blank_path_is_current_directory_witness:
  "list_all is_white_space [CHR '' '', CHR 0x09] \<and>
   listDirectoryTool [CHR '' '', CHR 0x09] notes_dir = (''notes.txt'', notes_dir) \<and>
   listDirectoryTool ''.'' notes_dir = (''notes.txt'', notes_dir) \<and>
   searchTool_calls sample_RegExp ''bar'' [CHR '' '', CHR 0x09] None notes_dir
     = searchTool_calls sample_RegExp ''bar'' ''.'' None notes_dir"
proof -
  have b: "list_all is_white_space [CHR '' '', CHR 0x09]" by (simp add: is_white_space_def)
  have l: "listDirectoryTool ''.'' notes_dir = (''notes.txt'', notes_dir)" by code_simp
  from blank_path_is_current_directory[OF b] b l show ?thesis by simp
qed

section \<open>Properties of edit_file\<close>

text \<open>
  A file whose text holds the target exactly once, edited with a replacement that has no
  dollar sign: the text around the occurrence is kept and the replacement stands where
  the target stood, unless the write fails, and then the file system is as it was.
\<close>

lemma edit_file_unique:
  assumes rd: "readFileSync fs p = Inr content"
    and one: "occurrences content old = 1"
    and nd: "CHR ''$'' \<notin> set new"
  shows "\<exists>pre post. content = pre @ old @ post \<and>
           (case writeFileSync fs p (pre @ new @ post) of
              Inl e \<Rightarrow> editFileTool p old new fs = (edit_catch p e, fs)
            | Inr fs' \<Rightarrow> editFileTool p old new fs = (''Successfully edited '' @ p, fs')
                \<and> readFileSync fs' p = Inr (pre @ new @ post))"
proof (cases "old = []")
  case True
  with one have c: "content = []" by (simp add: occurrences.simps)
  have "js_replace [] [] new = new" using nd by (simp add: js_replace_def getSubstitution_plain)
  with True c rd show ?thesis
    by (auto simp: editFileTool_def js_split.simps write_read split: sum.splits)
next
  case False
  with one have "indexOf content old \<noteq> None" by (simp add: indexOf_None_iff)
  then obtain i where i: "indexOf content old = Some i" by auto
  let ?pre = "take i content" and ?post = "drop (i + length old) content"
  have d: "content = ?pre @ old @ ?post" by (rule indexOf_Some_decomp[OF i])
  have r: "js_replace content old new = ?pre @ new @ ?post" by (rule js_replace_plain[OF i nd])
  have n: "length (js_split content old) = 2" using length_js_split[OF False, of content] one by simp
  have "case writeFileSync fs p (?pre @ new @ ?post) of
              Inl e \<Rightarrow> editFileTool p old new fs = (edit_catch p e, fs)
            | Inr fs' \<Rightarrow> editFileTool p old new fs = (''Successfully edited '' @ p, fs')
                \<and> readFileSync fs' p = Inr (?pre @ new @ ?post)"
    using rd i r n by (auto simp: editFileTool_def write_read split: sum.splits)
  with d show ?thesis by blast
qed

text \<open>
  The bytes of a text are those of its parts, one after the other: an edit that keeps the
  text around the occurrence keeps the bytes around it.
\<close>

lemma utf8_encode_append: "utf8_encode (a @ b) = utf8_encode a @ utf8_encode b"
  by (simp add: utf8_encode_def)

text \<open>Whatever the outcome, a result other than the success message leaves every file as it was.\<close>

lemma edit_file_failure_unchanged:
  "fst (editFileTool p old new fs) \<noteq> ''Successfully edited '' @ p \<Longrightarrow>
   snd (editFileTool p old new fs) = fs"
  by (auto simp: editFileTool_def Let_def split: sum.splits option.splits if_splits)

text \<open>
  A non-empty target that does not occur is reported as not found, and one that occurs
  twice or more is reported with its count; the file system is unchanged in both cases.
\<close>

lemma edit_file_rejects:
  assumes rd: "readFileSync fs p = Inr content" and ne: "old \<noteq> []"
  shows "(occurrences content old = 0 \<longrightarrow>
            editFileTool p old new fs = (''Error: old_string not found in '' @ p, fs)) \<and>
         (2 \<le> occurrences content old \<longrightarrow>
            editFileTool p old new fs =
              (''Error: old_string appears '' @ string_of_nat (occurrences content old)
                 @ '' times in '' @ p @ ''. Must be unique.'', fs))"
proof (intro conjI impI)
  assume "occurrences content old = 0"
  with ne have "indexOf content old = None" by (simp add: indexOf_None_iff)
  with rd show "editFileTool p old new fs = (''Error: old_string not found in '' @ p, fs)"
    by (simp add: editFileTool_def)
next
  assume k: "2 \<le> occurrences content old"
  with ne have "indexOf content old \<noteq> None" by (simp add: indexOf_None_iff)
  then obtain i where i: "indexOf content old = Some i" by auto
  have "int (length (js_split content old)) - 1 = int (occurrences content old)"
    using length_js_split[OF ne, of content] by simp
  with rd i k show "editFileTool p old new fs =
              (''Error: old_string appears '' @ string_of_nat (occurrences content old)
                 @ '' times in '' @ p @ ''. Must be unique.'', fs)"
    by (simp add: editFileTool_def string_of_int_nat)
qed

text \<open>
  Claim C1. A file whose text holds the target exactly once (occurrences counted without
  overlap) must have that occurrence replaced by the new string as it was given. The edit passes the new string to
  \<open>replace\<close> as a replacement pattern, so a new string with a dollar pattern is not
  written as given: the file \<open>f\<close> with text \<open>a=1\<close>, edited to replace \<open>1\<close> by \<open>$$\<close>,
  ends with the text \<open>a=$\<close> instead of \<open>a=$$\<close>.
\<close>

theorem edit_file_dollar_pattern:
  "readFileSync (Directory True [(''f'', RegFile True True ''a=1'')]) ''f'' = Inr ''a=1'' \<and>
   occurrences ''a=1'' ''1'' = 1 \<and>
   editFileTool ''f'' ''1'' ''$$'' (Directory True [(''f'', RegFile True True ''a=1'')])
     = (''Successfully edited f'', Directory True [(''f'', RegFile True True ''a=$'')])"
  by code_simp

text \<open>
  Claim C3. A target that occurs twice or more must be refused with its count and the
  file left as it was. The empty target occurs at each of the three positions of the
  text \<open>ab\<close>, yet the edit counts one occurrence, succeeds and puts the new string in
  front of the text.
\<close>

theorem edit_file_empty_target:
  "occurrences ''ab'' [] = 3 \<and>
   editFileTool ''f'' [] ''X'' (Directory True [(''f'', RegFile True True ''ab'')])
     = (''Successfully edited f'', Directory True [(''f'', RegFile True True ''Xab'')])"
  by code_simp

section \<open>Properties of write_file\<close>












text \<open>A file that is there is overwritten.\<close>

lemma write_file_overwrites:
  "writeFileTool ''c.txt'' ''new'' (Directory True [(''c.txt'', RegFile True True ''old'')]) =
     (''Successfully wrote 3 bytes to c.txt'', Directory True [(''c.txt'', RegFile True True ''new'')])"
  by code_simp

section \<open>Properties of delete_file\<close>








section \<open>Properties of the conversation controller\<close>

lemma pending_after_append:
  "pending_after p (ms @ ms') = (case pending_after p ms of None \<Rightarrow> None | Some q \<Rightarrow> pending_after q ms')"
  by (induction p ms rule: pending_after.induct) auto

lemma pending_after_results:
  "length results = length tcs \<Longrightarrow> pending_after (tcs @ q) (tool_results tcs results) = Some q"
  by (induction tcs results rule: list_induct2') (auto simp: tool_results_def)

lemma execute_calls_appends:
  "execute_calls decode new_RegExp tcs messages fs = (ok, messages', fs') \<Longrightarrow>
   \<exists>results. messages' = messages @ tool_results tcs results
       \<and> length results \<le> length tcs \<and> (ok \<longrightarrow> length results = length tcs)"
proof (induction tcs arbitrary: messages fs)
  case Nil
  then show ?case by (auto simp: tool_results_def)
next
  case (Cons tc tcs)
  show ?case
  proof (cases "decode (tc_name tc) (tc_arguments tc)")
    case None
    with Cons.prems have "messages' = messages @ tool_results (tc # tcs) []" "\<not> ok"
      by (auto simp: tool_results_def)
    then show ?thesis by force
  next
    case (Some request)
    obtain result fs1 where e: "executeTool new_RegExp request fs = (result, fs1)"
      by (cases "executeTool new_RegExp request fs")
    with Some Cons.prems have
      "execute_calls decode new_RegExp tcs (messages @ [ToolMessage (tc_id tc) result]) fs1
         = (ok, messages', fs')" by simp
    from Cons.IH[OF this] obtain results where
      r: "messages' = (messages @ [ToolMessage (tc_id tc) result]) @ tool_results tcs results"
         "length results \<le> length tcs" "ok \<longrightarrow> length results = length tcs" by blast
    then have "messages' = messages @ tool_results (tc # tcs) (result # results)
       \<and> length (result # results) \<le> length (tc # tcs)
       \<and> (ok \<longrightarrow> length (result # results) = length (tc # tcs))"
      by (simp add: tool_results_def)
    then show ?thesis by blast
  qed
qed

lemma run_loop_requests_complete:
  "complete_turns messages \<Longrightarrow>
   \<forall>req \<in> set (run_requests (run_loop client decode new_RegExp n messages fs)). complete_turns req"
proof (induction n arbitrary: messages fs)
  case 0
  then show ?case by simp
next
  case (Suc n)
  show ?case
  proof (cases "client messages")
    case None
    with Suc.prems show ?thesis by simp
  next
    case (Some msg)
    show ?thesis
    proof (cases "msg_tool_calls msg")
      case None
      with Some Suc.prems show ?thesis by simp
    next
      case tcs: (Some tcs)
      obtain ok messages' fs' where
        e: "execute_calls decode new_RegExp tcs (messages @ [AssistantMessage msg]) fs = (ok, messages', fs')"
        by (cases "execute_calls decode new_RegExp tcs (messages @ [AssistantMessage msg]) fs")
      show ?thesis
      proof (cases ok)
        case False
        with e Some tcs Suc.prems show ?thesis by simp
      next
        case True
        from execute_calls_appends[OF e] True obtain results where
          r: "messages' = (messages @ [AssistantMessage msg]) @ tool_results tcs results"
             "length results = length tcs" by blast
        have p1: "pending_after [] (messages @ [AssistantMessage msg]) = Some tcs"
          using Suc.prems tcs by (simp add: pending_after_append complete_turns_def)
        have p2: "pending_after tcs (tool_results tcs results) = Some []"
          using pending_after_results[OF r(2), of "[]"] by simp
        have "pending_after [] ((messages @ [AssistantMessage msg]) @ tool_results tcs results)
                = (case pending_after [] (messages @ [AssistantMessage msg]) of
                     None \<Rightarrow> None | Some q \<Rightarrow> pending_after q (tool_results tcs results))"
          by (rule pending_after_append)
        also have "\<dots> = Some []" by (simp add: p1 p2)
        finally have "complete_turns messages'" unfolding complete_turns_def r(1) .
        from Suc.IH[OF this] e True Some tcs Suc.prems show ?thesis by (simp add: Let_def)
      qed
    qed
  qed
qed

lemma execute_calls_decoded:
  "list_all (\<lambda>tc. decode (tc_name tc) (tc_arguments tc) \<noteq> None) tcs \<Longrightarrow>
   fst (execute_calls decode new_RegExp tcs messages fs)"
  by (induction tcs arbitrary: messages fs) (auto simp: case_prod_beta)

text \<open>
  One turn of the loop. A response that carries no tool-call field ends the run at once,
  and its content is what the run prints. A response that carries the calls \<open>tcs\<close>, all
  of whose arguments decode, makes the controller append the assistant message and then
  exactly one tool result per call, with the call's identifier and in the order received,
  and only then invoke the model again, with that conversation. Whatever happens, every
  conversation the model is invoked with has complete turns.
\<close>

lemma run_turn:
  assumes reply: "client messages = Some msg"
  shows "(msg_tool_calls msg = None \<longrightarrow>
            run_loop client decode new_RegExp (Suc n) messages fs =
              \<lparr>run_outcome = Done (msg_content msg), run_requests = [messages],
                run_messages = messages, run_fs = fs\<rparr>)
       \<and> (msg_tool_calls msg = Some tcs
            \<and> list_all (\<lambda>tc. decode (tc_name tc) (tc_arguments tc) \<noteq> None) tcs \<longrightarrow>
            (\<exists>results fs'. length results = length tcs \<and>
               (let messages' = messages @ [AssistantMessage msg] @ tool_results tcs results;
                    r = run_loop client decode new_RegExp n messages' fs'
                in run_loop client decode new_RegExp (Suc n) messages fs =
                     r\<lparr>run_requests := messages # run_requests r\<rparr>)))
       \<and> (complete_turns messages \<longrightarrow>
            list_all complete_turns
              (run_requests (run_loop client decode new_RegExp (Suc n) messages fs)))"
proof (intro conjI impI)
  assume "msg_tool_calls msg = None"
  with reply show "run_loop client decode new_RegExp (Suc n) messages fs =
              \<lparr>run_outcome = Done (msg_content msg), run_requests = [messages],
                run_messages = messages, run_fs = fs\<rparr>" by simp
next
  assume a: "msg_tool_calls msg = Some tcs
            \<and> list_all (\<lambda>tc. decode (tc_name tc) (tc_arguments tc) \<noteq> None) tcs"
  obtain ok messages' fs' where
    e: "execute_calls decode new_RegExp tcs (messages @ [AssistantMessage msg]) fs = (ok, messages', fs')"
    by (cases "execute_calls decode new_RegExp tcs (messages @ [AssistantMessage msg]) fs")
  from a execute_calls_decoded[of decode tcs new_RegExp "messages @ [AssistantMessage msg]" fs] e
  have ok: ok by simp
  from execute_calls_appends[OF e] ok obtain results where
    r: "messages' = (messages @ [AssistantMessage msg]) @ tool_results tcs results"
       "length results = length tcs" by blast
  from reply a e ok r(1) have
    "run_loop client decode new_RegExp (Suc n) messages fs =
       (run_loop client decode new_RegExp n (messages @ [AssistantMessage msg] @ tool_results tcs results) fs')
         \<lparr>run_requests := messages # run_requests
            (run_loop client decode new_RegExp n (messages @ [AssistantMessage msg] @ tool_results tcs results) fs')\<rparr>"
    by (simp add: Let_def)
  with r(2) show "\<exists>results fs'. length results = length tcs \<and>
               (let messages' = messages @ [AssistantMessage msg] @ tool_results tcs results;
                    r = run_loop client decode new_RegExp n messages' fs'
                in run_loop client decode new_RegExp (Suc n) messages fs =
                     r\<lparr>run_requests := messages # run_requests r\<rparr>)"
    unfolding Let_def by blast
next
  assume "complete_turns messages"
  from run_loop_requests_complete[OF this]
  show "list_all complete_turns
              (run_requests (run_loop client decode new_RegExp (Suc n) messages fs))"
    by (simp only: list_all_iff)
qed

lemma run_turn_example:
  "run sample_client sample_decode sample_RegExp 2 ''show the notes'' notes_dir =
     \<lparr>run_outcome = Done (Some ''done''),
      run_requests =
        [[UserMessage ''show the notes''],
         [UserMessage ''show the notes'', AssistantMessage first_reply,
          ToolMessage ''call_1'' (''foo'' @ [CHR 0x0A] @ ''bar'' @ [CHR 0x0A] @ ''foo'' @ [CHR 0x0A]),
          ToolMessage ''call_2'' ''Unknown tool: frobnicate'']],
      run_messages =
         [UserMessage ''show the notes'', AssistantMessage first_reply,
          ToolMessage ''call_1'' (''foo'' @ [CHR 0x0A] @ ''bar'' @ [CHR 0x0A] @ ''foo'' @ [CHR 0x0A]),
          ToolMessage ''call_2'' ''Unknown tool: frobnicate''],
      run_fs = notes_dir\<rparr>
   \<and> list_all complete_turns
        (run_requests (run sample_client sample_decode sample_RegExp 2 ''show the notes'' notes_dir))"
proof -
  have c: "sample_client [UserMessage ''show the notes''] = Some first_reply"
    by (simp add: sample_client_def)
  have ct: "complete_turns [UserMessage ''show the notes'']" by (simp add: complete_turns_def)
  from run_turn[where client = sample_client and messages = "[UserMessage ''show the notes'']"
      and decode = sample_decode and new_RegExp = sample_RegExp and n = 1 and fs = notes_dir, OF c] ct
  have inv: "list_all complete_turns
        (run_requests (run sample_client sample_decode sample_RegExp 2 ''show the notes'' notes_dir))"
    by (simp add: run_def numeral_2_eq_2)
  have ev: "run sample_client sample_decode sample_RegExp 2 ''show the notes'' notes_dir =
     \<lparr>run_outcome = Done (Some ''done''),
      run_requests =
        [[UserMessage ''show the notes''],
         [UserMessage ''show the notes'', AssistantMessage first_reply,
          ToolMessage ''call_1'' (''foo'' @ [CHR 0x0A] @ ''bar'' @ [CHR 0x0A] @ ''foo'' @ [CHR 0x0A]),
          ToolMessage ''call_2'' ''Unknown tool: frobnicate'']],
      run_messages =
         [UserMessage ''show the notes'', AssistantMessage first_reply,
          ToolMessage ''call_1'' (''foo'' @ [CHR 0x0A] @ ''bar'' @ [CHR 0x0A] @ ''foo'' @ [CHR 0x0A]),
          ToolMessage ''call_2'' ''Unknown tool: frobnicate''],
      run_fs = notes_dir\<rparr>"
    by code_simp
  from ev inv show ?thesis by blast
qed

lemma empty_calls_pending:
  "run_outcome (run_loop empty_calls_client decode new_RegExp n messages fs) = Pending"
  by (induction n arbitrary: messages) (auto simp: empty_calls_client_def Let_def)

text \<open>
  Claim C5. A response that carries zero tool calls must end the run at once, with its
  content printed. The loop tests the tool-call field for absence only: a response whose
  tool-call list is present and empty, with the content \<open>hello\<close>, does not end the run and
  nothing is printed; the assistant message is appended and the model is invoked again,
  turn after turn.
\<close>

theorem run_empty_tool_calls_goes_on:
  "(\<forall>n. run_outcome (run empty_calls_client sample_decode sample_RegExp n ''hi'' notes_dir) = Pending)
   \<and> run_requests (run empty_calls_client sample_decode sample_RegExp 2 ''hi'' notes_dir) =
       [[UserMessage ''hi''],
        [UserMessage ''hi'',
         AssistantMessage \<lparr>msg_content = Some ''hello'', msg_tool_calls = Some []\<rparr>]]"
  by (simp add: run_def empty_calls_pending numeral_2_eq_2 empty_calls_client_def)

section \<open>Faults in the first agent\<close>

text \<open>
  Claim C4. A failing tool invocation must come back as text. Reading a file that does
  not exist, the handler \<open>readFile\<close> of \<open>agent.ts\<close> lets the error of the file system
  out, where the handler \<open>readFileTool\<close> returns the text of the failure.
\<close>

theorem read_file_fault_propagates:
  "readFile notes_dir ''missing.txt'' =
     Inl \<lparr>err_code = ENOENT, err_syscall = ''open'', err_path = Some ''missing.txt''\<rparr>
   \<and> readFileTool ''missing.txt'' notes_dir = (''Error: File not found: missing.txt'', notes_dir)"
  by code_simp

end
